theory Spec2Isabelle
  imports Complex_Main "HOL-Library.Multiset"
begin

section \<open>Numbers\<close>

text \<open>
  The engine computes with JavaScript numbers. Finite numbers are modelled as reals
  (rounding is not modelled); the non-finite values that the source tests for with
  \<^verbatim>\<open>Number.isFinite\<close>, and that \<^verbatim>\<open>Math.pow\<close> can produce from finite
  arguments, are separate constructors.
\<close>

datatype jsnum = Finite real | PosInfinity | NegInfinity | NaN | Undefined

fun isFinite :: "jsnum \<Rightarrow> bool" where
  "isFinite (Finite x) = True"
| "isFinite _ = False"

text \<open>
  \<^verbatim>\<open>Math.pow(base, exponent)\<close> on finite arguments: any base to the power 0 is 1
  (also \<^verbatim>\<open>Math.pow(0, 0)\<close>), a zero base gives 0 for a positive and Infinity for a
  negative exponent, and a negative base with a fractional exponent gives NaN.
\<close>

definition jsPow :: "real \<Rightarrow> real \<Rightarrow> jsnum" where
  "jsPow b e =
     (if e = 0 then Finite 1
      else if b = 0 then (if 0 < e then Finite 0 else PosInfinity)
      else if 0 < b then Finite (b powr e)
      else if e = of_int \<lfloor>e\<rfloor> then Finite (b powi \<lfloor>e\<rfloor>)
      else NaN)"

section \<open>The interpolation primitive\<close>

text \<open>
  \<^verbatim>\<open>function clamp(n, min, max) { return Math.min(max, Math.max(min, n)); }\<close>
\<close>

definition clamp :: "real \<Rightarrow> real \<Rightarrow> real \<Rightarrow> real" where
  "clamp n lo hi = min hi (max lo n)"

text \<open>
  \<^verbatim>\<open>const alpha = 1 - Math.pow(1 - speed, dtRatio);
  return from + (to - from) * clamp(alpha, 0, 1);\<close>
  With an infinite power the blend factor is \<open>-Infinity\<close> and clamps to 0; a NaN
  power passes through \<^verbatim>\<open>Math.max\<close> and \<^verbatim>\<open>Math.min\<close> unchanged, so the result is NaN.
\<close>

definition alphaLerp :: "real \<Rightarrow> real \<Rightarrow> real \<Rightarrow> real \<Rightarrow> jsnum" where
  "alphaLerp frm to speed dtRatio =
     (case jsPow (1 - speed) dtRatio of
        Finite p \<Rightarrow> Finite (frm + (to - frm) * clamp (1 - p) 0 1)
      | PosInfinity \<Rightarrow> Finite (frm + (to - frm) * 0)
      | NegInfinity \<Rightarrow> Finite (frm + (to - frm) * 1)
      | NaN \<Rightarrow> NaN
      | Undefined \<Rightarrow> NaN)"

text \<open>
  Advancing one animated scalar over a sequence of ticks toward a fixed target: each
  tick feeds the previous result back into \<open>alphaLerp\<close>; a NaN stays NaN.
\<close>

fun alphaLerpTicks :: "real \<Rightarrow> real \<Rightarrow> real \<Rightarrow> real list \<Rightarrow> jsnum" where
  "alphaLerpTicks cur to speed [] = Finite cur"
| "alphaLerpTicks cur to speed (r # rs) =
     (case alphaLerp cur to speed r of
        Finite nxt \<Rightarrow> alphaLerpTicks nxt to speed rs
      | _ \<Rightarrow> NaN)"

section \<open>Packed sample buffers\<close>

text \<open>
  Samples travel as a packed \<^verbatim>\<open>Float64Array\<close> \<open>[t0, v0, t1, v1, ...]\<close>;
  \<^verbatim>\<open>ptT(buf, i) = buf[i * 2]\<close> and \<^verbatim>\<open>ptV(buf, i) = buf[i * 2 + 1]\<close>.
  The buffer is a list of reals. Where the source indexes with a number that may be
  negative or past the end, the read yields \<^verbatim>\<open>undefined\<close>; \<open>ptV_at\<close> writes that out.
\<close>

definition ptT :: "real list \<Rightarrow> nat \<Rightarrow> real" where
  "ptT buf i = buf ! (i * 2)"

definition ptV :: "real list \<Rightarrow> nat \<Rightarrow> real" where
  "ptV buf i = buf ! (i * 2 + 1)"

definition ptV_at :: "real list \<Rightarrow> int \<Rightarrow> jsnum" where
  "ptV_at buf i =
     (if 0 \<le> i \<and> nat i * 2 + 1 < length buf then Finite (ptV buf (nat i)) else Undefined)"

text \<open>
  The relational operators of JavaScript on numbers: any comparison with NaN (and with
  \<^verbatim>\<open>undefined\<close>, which converts to NaN) is false.
\<close>

fun jsLess :: "jsnum \<Rightarrow> jsnum \<Rightarrow> bool" where
  "jsLess (Finite a) (Finite b) = (a < b)"
| "jsLess (Finite a) PosInfinity = True"
| "jsLess NegInfinity (Finite b) = True"
| "jsLess NegInfinity PosInfinity = True"
| "jsLess _ _ = False"

section \<open>Target range from the visible samples\<close>

record RangeResult =
  rmin :: real
  rmax :: real

text \<open>
  The scan of \<^verbatim>\<open>computeRangeFromVisible\<close>:
  \<^verbatim>\<open>for (let i = firstVisibleIndex; i <= safeEnd; i += 1) {
    const v = ptV(buf, i);
    if (v < min) min = v;
    if (v > max) max = v;
  }\<close>
  starting from \<open>min = +Infinity\<close>, \<open>max = -Infinity\<close>.
\<close>

definition scanStep :: "real list \<Rightarrow> jsnum \<times> jsnum \<Rightarrow> int \<Rightarrow> jsnum \<times> jsnum" where
  "scanStep buf acc i =
     (let v = ptV_at buf i;
          mn = (if jsLess v (fst acc) then v else fst acc);
          mx = (if jsLess (snd acc) v then v else snd acc)
      in (mn, mx))"

definition scanVisible :: "real list \<Rightarrow> int \<Rightarrow> int \<Rightarrow> int \<Rightarrow> jsnum \<times> jsnum" where
  "scanVisible buf cnt firstVisibleIndex lastVisibleIndex =
     (let safeEnd = min lastVisibleIndex (cnt - 1)
      in foldl (scanStep buf) (PosInfinity, NegInfinity) [firstVisibleIndex..safeEnd])"

text \<open>
  The extent the range must cover: the scanned extremes (or \<open>currentValue \<plusminus> 0.5\<close> when
  the scan left either of them non-finite), widened to the current value and to the
  reference value when that is finite.
\<close>

definition dataExtent ::
  "real list \<Rightarrow> int \<Rightarrow> int \<Rightarrow> int \<Rightarrow> real \<Rightarrow> jsnum \<Rightarrow> real \<times> real" where
  "dataExtent buf cnt firstVisibleIndex lastVisibleIndex currentValue referenceValue =
     (let (mn0, mx0) =
            (case scanVisible buf cnt firstVisibleIndex lastVisibleIndex of
               (Finite a, Finite b) \<Rightarrow> (a, b)
             | _ \<Rightarrow> (currentValue - 1/2, currentValue + 1/2));
          mn1 = (if currentValue < mn0 then currentValue else mn0);
          mx1 = (if currentValue > mx0 then currentValue else mx0)
      in (case referenceValue of
            Finite r \<Rightarrow> (if r < mn1 then r else mn1, if r > mx1 then r else mx1)
          | _ \<Rightarrow> (mn1, mx1)))"

definition minRangeOf :: "bool \<Rightarrow> real \<Rightarrow> real" where
  "minRangeOf exaggerate rawRange =
     max (rawRange * (if exaggerate then 2/100 else 1/10)) (if exaggerate then 4/100 else 4/10)"

definition computeRangeFromVisible ::
  "real list \<Rightarrow> int \<Rightarrow> int \<Rightarrow> int \<Rightarrow> real \<Rightarrow> jsnum \<Rightarrow> bool \<Rightarrow> RangeResult" where
  "computeRangeFromVisible buf cnt firstVisibleIndex lastVisibleIndex
       currentValue referenceValue exaggerate =
     (let (mn, mx) = dataExtent buf cnt firstVisibleIndex lastVisibleIndex
                        currentValue referenceValue;
          rawRange = mx - mn;
          marginFactor = (if exaggerate then 1/100 else 12/100);
          minRange = minRangeOf exaggerate rawRange
      in if rawRange < minRange
         then (let mid = (mn + mx) / 2
               in \<lparr> rmin = mid - minRange / 2, rmax = mid + minRange / 2 \<rparr>)
         else \<lparr> rmin = mn - rawRange * marginFactor, rmax = mx + rawRange * marginFactor \<rparr>)"

section \<open>Value and range convergence\<close>

text \<open>
  The locals of the frame callback between its SNAPSHOT and ADVANCE steps.
  \<^verbatim>\<open>const currentRange = Math.max(1e-6, curRangeMax - curRangeMin);
  const valueGap = Math.abs(targetValue - curDisplay);
  const gapRatio = clamp(valueGap / currentRange, 0, 1);
  const adaptiveSpeed = clamp(lerpSpeed + (1 - gapRatio) * 0.2, 0.001, 0.8);
  const pausedRatio = ratio * (1 - pauseProgress);
  const alpha = pausedRatio <= 0 ? 0 : 1 - Math.pow(1 - adaptiveSpeed, pausedRatio);\<close>
\<close>

definition VALUE_SNAP_THRESHOLD :: real where
  "VALUE_SNAP_THRESHOLD = 1/1000"

definition currentRange :: "real \<Rightarrow> real \<Rightarrow> real" where
  "currentRange curRangeMin curRangeMax = max (1/1000000) (curRangeMax - curRangeMin)"

definition gapRatio :: "real \<Rightarrow> real \<Rightarrow> real \<Rightarrow> real \<Rightarrow> real" where
  "gapRatio targetValue curDisplay curRangeMin curRangeMax =
     clamp (\<bar>targetValue - curDisplay\<bar> / currentRange curRangeMin curRangeMax) 0 1"

definition adaptiveSpeed :: "real \<Rightarrow> real \<Rightarrow> real" where
  "adaptiveSpeed lerpSpeed gap = clamp (lerpSpeed + (1 - gap) * (2/10)) (1/1000) (8/10)"

text \<open>
  The base \<open>1 - adaptiveSpeed\<close> lies in \<open>[0.2, 0.999]\<close> and the exponent is positive where
  the power is taken, so \<^verbatim>\<open>Math.pow\<close> is the real power there (lemma \<open>frameAlpha_jsPow\<close>).
\<close>

definition frameAlpha :: "real \<Rightarrow> real \<Rightarrow> real" where
  "frameAlpha speed pausedRatio =
     (if pausedRatio \<le> 0 then 0 else 1 - (1 - speed) powr pausedRatio)"

text \<open>
  \<^verbatim>\<open>let nextDisplay = curDisplay + (targetValue - curDisplay) * alpha;
  if (pauseProgress < 0.5 &&
      Math.abs(nextDisplay - targetValue) < currentRange * VALUE_SNAP_THRESHOLD) {
    nextDisplay = targetValue;
  }\<close>
\<close>

definition advanceDisplay :: "real \<Rightarrow> real \<Rightarrow> real \<Rightarrow> real \<Rightarrow> real \<Rightarrow> real" where
  "advanceDisplay curDisplay targetValue alpha pauseProgress curRange =
     (let nextDisplay = curDisplay + (targetValue - curDisplay) * alpha
      in if pauseProgress < 1/2 \<and> \<bar>nextDisplay - targetValue\<bar> < curRange * VALUE_SNAP_THRESHOLD
         then targetValue else nextDisplay)"

text \<open>
  One bound of the Y-range once the range is initialised. For the minimum:
  \<^verbatim>\<open>const snapThreshold = currentRange * 0.5;
  nextRangeMin =
    rangeOut.min < curRangeMin && curRangeMin - rangeOut.min > snapThreshold
      ? rangeOut.min
      : curRangeMin + (rangeOut.min - curRangeMin) * alpha;\<close>
  and the mirrored test for the maximum; then for both
  \<^verbatim>\<open>const pxThreshold =
    innerHeight > 0 ? (0.5 * currentRange) / innerHeight : VALUE_SNAP_THRESHOLD;
  const threshold =
    Number.isFinite(pxThreshold) && pxThreshold > 0 ? pxThreshold : VALUE_SNAP_THRESHOLD;
  if (Math.abs(nextRangeMin - rangeOut.min) < threshold) nextRangeMin = rangeOut.min;\<close>
  (a real \<open>pxThreshold\<close> is finite).
\<close>

definition snapOrLerpMin :: "real \<Rightarrow> real \<Rightarrow> real \<Rightarrow> real \<Rightarrow> real" where
  "snapOrLerpMin curRangeMin targetMin curRange alpha =
     (let snapThreshold = curRange * (1/2)
      in if targetMin < curRangeMin \<and> curRangeMin - targetMin > snapThreshold
         then targetMin
         else curRangeMin + (targetMin - curRangeMin) * alpha)"

definition snapOrLerpMax :: "real \<Rightarrow> real \<Rightarrow> real \<Rightarrow> real \<Rightarrow> real" where
  "snapOrLerpMax curRangeMax targetMax curRange alpha =
     (let snapThreshold = curRange * (1/2)
      in if targetMax > curRangeMax \<and> targetMax - curRangeMax > snapThreshold
         then targetMax
         else curRangeMax + (targetMax - curRangeMax) * alpha)"

definition rangeSnapThreshold :: "real \<Rightarrow> real \<Rightarrow> real" where
  "rangeSnapThreshold curRange innerHeight =
     (let pxThreshold = (if innerHeight > 0 then ((1/2) * curRange) / innerHeight
                         else VALUE_SNAP_THRESHOLD)
      in if pxThreshold > 0 then pxThreshold else VALUE_SNAP_THRESHOLD)"

definition snapWithin :: "real \<Rightarrow> real \<Rightarrow> real \<Rightarrow> real" where
  "snapWithin nextBound target threshold =
     (if \<bar>nextBound - target\<bar> < threshold then target else nextBound)"

text \<open>
  The whole range advance of the single-series path: the first tick adopts the target
  and sets \<open>rangeInited\<close>; later ticks snap or interpolate each bound. The result is
  \<open>(nextRangeMin, nextRangeMax, rangeInited)\<close>.
\<close>

definition advanceRange ::
  "bool \<Rightarrow> real \<Rightarrow> real \<Rightarrow> RangeResult \<Rightarrow> real \<Rightarrow> real \<Rightarrow> real \<times> real \<times> bool" where
  "advanceRange rangeInited curRangeMin curRangeMax rangeOut alpha innerHeight =
     (if \<not> rangeInited then (rmin rangeOut, rmax rangeOut, True)
      else
        (let curRange = currentRange curRangeMin curRangeMax;
             threshold = rangeSnapThreshold curRange innerHeight;
             nextRangeMin = snapWithin
               (snapOrLerpMin curRangeMin (rmin rangeOut) curRange alpha)
               (rmin rangeOut) threshold;
             nextRangeMax = snapWithin
               (snapOrLerpMax curRangeMax (rmax rangeOut) curRange alpha)
               (rmax rangeOut) threshold
         in (nextRangeMin, nextRangeMax, True)))"

section \<open>Ingestion\<close>

text \<open>
  A caller-supplied sample; either field may hold any JavaScript number (or be missing).
\<close>

record LivelinePoint =
  pt_time :: jsnum
  pt_value :: jsnum

record PackedPoints =
  packed_buf :: "real list"
  packed_count :: nat

text \<open>
  \<^verbatim>\<open>for (let i = 0; i < data.length; i += 1) {
    const t = data[i]?.time;
    const v = data[i]?.value;
    if (!Number.isFinite(t) || !Number.isFinite(v)) continue;
    clean.push({ t, v });
  }\<close>
\<close>

fun cleanPoints :: "LivelinePoint list \<Rightarrow> (real \<times> real) list" where
  "cleanPoints [] = []"
| "cleanPoints (p # ps) =
     (case (pt_time p, pt_value p) of
        (Finite t, Finite v) \<Rightarrow> (t, v) # cleanPoints ps
      | _ \<Rightarrow> cleanPoints ps)"

text \<open>
  \<^verbatim>\<open>clean.sort((a, b) => a.t - b.t);
  const capped = clean.length > 1200 ? clean.slice(clean.length - 1200) : clean;\<close>
  The sort is stable, as \<^verbatim>\<open>Array.prototype.sort\<close> is.
\<close>

definition cappedPoints :: "LivelinePoint list \<Rightarrow> (real \<times> real) list" where
  "cappedPoints data =
     (let clean = sort_key fst (cleanPoints data)
      in if length clean > 1200 then drop (length clean - 1200) clean else clean)"

text \<open>
  \<^verbatim>\<open>const buf = new Float64Array(capped.length * 2);
  for (let i = 0; i < capped.length; i += 1) {
    buf[i * 2] = capped[i].t;
    buf[i * 2 + 1] = capped[i].v;
  }
  return { buf, count: capped.length };\<close>
\<close>

fun packBuf :: "(real \<times> real) list \<Rightarrow> real list" where
  "packBuf [] = []"
| "packBuf ((t, v) # ps) = t # v # packBuf ps"

definition packPoints :: "LivelinePoint list \<Rightarrow> PackedPoints" where
  "packPoints data =
     (let capped = cappedPoints data
      in \<lparr> packed_buf = packBuf capped, packed_count = length capped \<rparr>)"

section \<open>Evaluating the spline at a time\<close>

text \<open>
  The binary search of \<^verbatim>\<open>interpolateAtTime\<close>:
  \<^verbatim>\<open>while (hi - lo > 1) {
    const mid = (lo + hi) >> 1;
    if (ptT(buf, mid) <= t) lo = mid; else hi = mid;
  }\<close>
  The indices are natural numbers below the sample cap, where the shift is a halving.
\<close>

function findSegment :: "real list \<Rightarrow> real \<Rightarrow> nat \<Rightarrow> nat \<Rightarrow> nat \<times> nat" where
  "findSegment buf t lo hi =
     (if hi - lo > 1
      then (let mid = (lo + hi) div 2
            in if ptT buf mid \<le> t then findSegment buf t mid hi
               else findSegment buf t lo mid)
      else (lo, hi))"
  by pat_completeness auto
termination
  by (relation "measure (\<lambda>(buf, t, lo, hi). hi - lo)") auto

declare findSegment.simps [simp del]

text \<open>
  The secant slopes of the neighbouring segments, which fall back to the slope of the
  segment itself at the ends of the buffer and across a non-increasing time step.
\<close>

definition leftSecant :: "real list \<Rightarrow> nat \<Rightarrow> real \<Rightarrow> real" where
  "leftSecant buf lo delta =
     (if lo > 0
      then (let hL = ptT buf lo - ptT buf (lo - 1)
            in if hL > 0 then (ptV buf lo - ptV buf (lo - 1)) / hL else delta)
      else delta)"

definition rightSecant :: "real list \<Rightarrow> nat \<Rightarrow> nat \<Rightarrow> real \<Rightarrow> real" where
  "rightSecant buf cnt hi delta =
     (if hi < cnt - 1
      then (let hR = ptT buf (hi + 1) - ptT buf hi
            in if hR > 0 then (ptV buf (hi + 1) - ptV buf hi) / hR else delta)
      else delta)"

text \<open>
  The initial tangents: the segment's slope at an end point of the buffer, zero where
  the adjacent secants differ in sign, and their mean otherwise.
\<close>

definition tangentLo :: "nat \<Rightarrow> real \<Rightarrow> real \<Rightarrow> real" where
  "tangentLo lo deltaL delta =
     (if lo = 0 then delta else if deltaL * delta \<le> 0 then 0 else (deltaL + delta) / 2)"

definition tangentHi :: "nat \<Rightarrow> nat \<Rightarrow> real \<Rightarrow> real \<Rightarrow> real" where
  "tangentHi cnt hi delta deltaR =
     (if hi = cnt - 1 then delta else if delta * deltaR \<le> 0 then 0 else (delta + deltaR) / 2)"

text \<open>
  The Fritsch-Carlson constraint on the pair of tangents of one segment:
  \<^verbatim>\<open>if (delta === 0) { m0 = 0; m1 = 0; }
  else {
    const alpha = m0 / delta; const beta = m1 / delta;
    const s2 = alpha * alpha + beta * beta;
    if (s2 > 9) {
      const s = 3 / Math.sqrt(s2);
      m0 = s * alpha * delta; m1 = s * beta * delta;
    }
  }\<close>
\<close>

definition fritschCarlson :: "real \<Rightarrow> real \<Rightarrow> real \<Rightarrow> real \<times> real" where
  "fritschCarlson delta m0 m1 =
     (if delta = 0 then (0, 0)
      else (let alpha = m0 / delta;
                beta = m1 / delta;
                s2 = alpha * alpha + beta * beta
            in if s2 > 9
               then (let s = 3 / sqrt s2 in (s * alpha * delta, s * beta * delta))
               else (m0, m1)))"

definition hermite :: "real \<Rightarrow> real \<Rightarrow> real \<Rightarrow> real \<Rightarrow> real \<Rightarrow> real \<Rightarrow> real" where
  "hermite u v0 v1 seg m0 m1 =
     (let u2 = u * u; u3 = u2 * u
      in (2 * u3 - 3 * u2 + 1) * v0 + (u3 - 2 * u2 + u) * seg * m0
         + (- 2 * u3 + 3 * u2) * v1 + (u3 - u2) * seg * m1)"

definition interpolateAtTime :: "real list \<Rightarrow> nat \<Rightarrow> real \<Rightarrow> real" where
  "interpolateAtTime buf cnt t =
     (if cnt = 0 then 0
      else if t \<le> ptT buf 0 then ptV buf 0
      else if t \<ge> ptT buf (cnt - 1) then ptV buf (cnt - 1)
      else
        (let (lo, hi) = findSegment buf t 0 (cnt - 1);
             t0 = ptT buf lo; v0 = ptV buf lo;
             t1 = ptT buf hi; v1 = ptV buf hi;
             seg = t1 - t0
         in if seg \<le> 0 then v0
            else
              (let delta = (v1 - v0) / seg;
                   deltaL = leftSecant buf lo delta;
                   deltaR = rightSecant buf cnt hi delta;
                   (m0, m1) = fritschCarlson delta
                                (tangentLo lo deltaL delta) (tangentHi cnt hi delta deltaR);
                   u = (t - t0) / seg
               in hermite u v0 v1 seg m0 m1)))"

section \<open>The frame callback\<close>

text \<open>
  The engine state that the Y axis of a frame reads and writes: the shared values
  \<^verbatim>\<open>displayValueSV\<close>, \<^verbatim>\<open>rangeMinSV\<close>, \<^verbatim>\<open>rangeMaxSV\<close> and the flags and candle-range
  values next to them. Flags that the source keeps as 0/1 numbers are booleans.

  A slot of \<^verbatim>\<open>seriesSlotsSV\<close> holds the animated state of one series of a multi-series
  chart: \<^verbatim>\<open>{ active, displayValue, alpha, dotX, dotY, color, label }\<close>, created with
  \<^verbatim>\<open>active: 0, displayValue: 0, alpha: 0\<close>. The array has \<open>MAX_SERIES\<close> slots. The fields
  \<^verbatim>\<open>dotX\<close>, \<^verbatim>\<open>dotY\<close>, \<^verbatim>\<open>color\<close> and \<^verbatim>\<open>label\<close> are written for drawing and not read by
  the Y axis; the write of \<^verbatim>\<open>dotY\<close> is an effect of the frame below.
\<close>

record SeriesSlot =
  slot_active :: bool
  slot_displayValue :: real
  slot_alpha :: real

record EngineState =
  displayValue :: real
  rangeMin :: real
  rangeMax :: real
  rangeInited :: bool
  multiSeriesRangeInited :: bool
  candleRangeMin :: real
  candleRangeMax :: real
  candleRangeInited :: bool
  candleWidthMorphFrom :: real
  candleWidthMorphTo :: real
  candleWidthMorphStart :: real
  candleWidthMorphT :: real
  candleWidthOldRangeMin :: real
  candleWidthOldRangeMax :: real
  candleWidthNewRangeMin :: real
  candleWidthNewRangeMax :: real
  seriesSlots :: "SeriesSlot list"

text \<open>
  What one invocation of the callback reads besides that state. Quantities that the
  callback derives from the time axis, the pointer and the candle and series arrays
  before they meet the Y axis are inputs here:
  \<^item> \<open>pts\<close> is the packed buffer with the live value appended, \<open>[t0, v0, ..., tN, vN, live]\<close>;
  \<^item> \<open>ratio\<close>, \<open>pauseProgress\<close> and \<open>chartReveal\<close> are the values after this tick's update
    of the pause and reveal animations, \<open>firstVisible\<close> and \<open>lastVisible\<close> the results of the
    two index searches over the visible window, \<open>isLiveNow\<close> the test of the domain offset;
  \<^item> \<open>referenceLine\<close> is the reference value, NaN when there is no reference line;
  \<^item> \<open>tipBaseY\<close> is the loading waveform at the live tip;
  \<^item> \<open>visibleCandleRange w\<close> is \<^verbatim>\<open>computeCandleRange\<close> of the candles visible at candle
    width \<open>w\<close> (none when no candle is visible), \<open>targetCandleRange\<close> the same for the target
    width; \<open>candleHovered\<close> and \<open>lineModeCrosshair\<close> say whether the pointer is over a candle
    and whether the line-mode morph is past its midpoint;
  \<^item> \<open>series\<close> are the series of a multi-series chart as \<^verbatim>\<open>packedSeriesData\<close> hands them
    over: for each the packed buffer with the series value appended (\<^verbatim>\<open>seriesBuffersSV\<close>),
    the number of samples (\<^verbatim>\<open>seriesCountsSV\<close>), the series value (\<^verbatim>\<open>seriesValuesSV\<close>),
    whether its id is among the hidden ones, and the results of the two index searches
    over the visible window in its buffer; \<open>seriesTipBaseY\<close> is the loading waveform at
    the tip of the series.
\<close>

record SeriesInput =
  series_buf :: "real list"
  series_count :: nat
  series_value :: real
  series_hidden :: bool
  series_first :: int
  series_last :: int

record FrameInput =
  width :: real
  height :: real
  paddingTop :: real
  paddingBottom :: real
  pts :: "real list"
  ratio :: real
  pauseProgress :: real
  chartReveal :: real
  firstVisible :: int
  lastVisible :: int
  isLiveNow :: bool
  lerpSpeed :: real
  exaggerate :: bool
  referenceLine :: jsnum
  tipBaseY :: real
  showGrid :: bool
  showFill :: bool
  showMomentum :: bool
  hoverOrScrub :: bool
  isCandleNow :: bool
  isMultiNow :: bool
  cWidthSecs :: real
  nowRawMs :: real
  visibleCandleRange :: "real \<Rightarrow> RangeResult option"
  targetCandleRange :: "RangeResult option"
  candleHovered :: bool
  lineModeCrosshair :: bool
  series :: "SeriesInput list"
  seriesTipBaseY :: real

text \<open>
  The effects of a frame on what is drawn, in the order the callback performs them. Each
  carries the Y-axis arguments it is given: range minimum, span (or maximum) and value.
  \<open>RewindSeries i\<close>, \<open>SeriesPath i\<close> and \<open>SeriesDotY i\<close> are the rewind, the path and the
  dot of the series in slot \<open>i\<close>.
\<close>

datatype path =
    LinePath | FillPath | OldLinePath | OldFillPath | CurrentLinePath | ReferencePath
  | HoverLinePath | ArrowUpChevron0 | ArrowUpChevron1 | ArrowDownChevron0 | ArrowDownChevron1
  | BadgePath

datatype sharedValue = DisplayValueSV | RangeMinSV | RangeMaxSV

datatype effect =
    Rewind path
  | CrosshairOpacity real
  | DotY real
  | GridSlots real real real
  | CrosshairState real real
  | CandlePaths real real
  | OldCandlePaths real real
  | CandleCrosshair real real
  | RewindSeries nat
  | SeriesPath nat real real real
  | SeriesDotY nat real
  | MultiCrosshairState real real
  | SmoothPath path real real real
  | CurrentPriceLine real
  | ReferenceLineY real
  | Chevrons real
  | Commit sharedValue real

definition allPaths :: "path list" where
  "allPaths = [LinePath, FillPath, OldLinePath, OldFillPath, CurrentLinePath, ReferencePath,
     HoverLinePath, ArrowUpChevron0, ArrowUpChevron1, ArrowDownChevron0, ArrowDownChevron1,
     BadgePath]"

subsection \<open>Candle range and width morph\<close>

definition CANDLE_WIDTH_TRANS_MS :: real where
  "CANDLE_WIDTH_TRANS_MS = 300"

definition CANDLE_RANGE_LERP_SPEED :: real where
  "CANDLE_RANGE_LERP_SPEED = 15/100"

definition CANDLE_RANGE_ADAPTIVE_BOOST :: real where
  "CANDLE_RANGE_ADAPTIVE_BOOST = 2/10"

text \<open>
  \<^verbatim>\<open>Math.exp(Math.log(from) + (Math.log(to) - Math.log(from)) * t)\<close>, taken of candle widths,
  which are positive.
\<close>

definition logLerp :: "real \<Rightarrow> real \<Rightarrow> real \<Rightarrow> real" where
  "logLerp frm to t = exp (ln frm + (ln to - ln frm) * t)"

text \<open>
  A step of \<open>alphaLerp\<close> stored back into a shared value. The speeds passed here are below
  1, for which \<open>alphaLerp\<close> returns a number (lemma \<open>alphaLerp_number\<close>).
\<close>

definition lerpNumber :: "real \<Rightarrow> real \<Rightarrow> real \<Rightarrow> real \<Rightarrow> real" where
  "lerpNumber cur to speed dtRatio =
     (case alphaLerp cur to speed dtRatio of Finite x \<Rightarrow> x | _ \<Rightarrow> cur)"

text \<open>
  A change of the candle width starts a morph:
  \<^verbatim>\<open>if (cWidthSecs !== candleWidthMorphToSV.value) {
    candleWidthMorphFromSV.value = candleWidthMorphStartSV.value > 0
      ? Math.exp(Math.log(from) + (Math.log(to) - Math.log(from)) * candleWidthMorphTSV.value)
      : candleWidthMorphToSV.value;
    candleWidthMorphToSV.value = cWidthSecs;
    candleWidthMorphStartSV.value = nowRawMs;
    candleWidthMorphTSV.value = 0;
    candleWidthOldRangeMinSV.value = candleRangeMinSV.value;
    candleWidthOldRangeMaxSV.value = candleRangeMaxSV.value;
  }\<close>
\<close>

definition startWidthMorph :: "EngineState \<Rightarrow> FrameInput \<Rightarrow> EngineState" where
  "startWidthMorph s inp =
     (if cWidthSecs inp \<noteq> candleWidthMorphTo s
      then s\<lparr> candleWidthMorphFrom :=
                 (if candleWidthMorphStart s > 0
                  then logLerp (candleWidthMorphFrom s) (candleWidthMorphTo s) (candleWidthMorphT s)
                  else candleWidthMorphTo s),
               candleWidthMorphTo := cWidthSecs inp,
               candleWidthMorphStart := nowRawMs inp,
               candleWidthMorphT := 0,
               candleWidthOldRangeMin := candleRangeMin s,
               candleWidthOldRangeMax := candleRangeMax s \<rparr>
      else s)"

text \<open>
  The progress of a running morph, cosine-eased over \<open>CANDLE_WIDTH_TRANS_MS\<close>:
  \<^verbatim>\<open>let morphT = candleWidthMorphTSV.value;
  if (candleWidthMorphStartSV.value > 0) {
    const elapsed = nowRawMs - candleWidthMorphStartSV.value;
    const t = Math.min(elapsed / CANDLE_WIDTH_TRANS_MS, 1);
    morphT = (1 - Math.cos(t * Math.PI)) / 2;
    displayCandleWidth = Math.exp(...);
    if (t >= 1) {
      displayCandleWidth = candleWidthMorphToSV.value;
      candleWidthMorphStartSV.value = 0;
      morphT = -1;
    }
    candleWidthMorphTSV.value = morphT;
  } else {
    displayCandleWidth = cWidthSecs;
  }\<close>
  The result is \<open>(morphT, displayCandleWidth, state)\<close>.
\<close>

definition stepWidthMorph :: "EngineState \<Rightarrow> FrameInput \<Rightarrow> real \<times> real \<times> EngineState" where
  "stepWidthMorph s inp =
     (if candleWidthMorphStart s > 0
      then (let elapsed = nowRawMs inp - candleWidthMorphStart s;
                t = min (elapsed / CANDLE_WIDTH_TRANS_MS) 1;
                morphT = (1 - cos (t * pi)) / 2
            in if t \<ge> 1
               then (- 1, candleWidthMorphTo s,
                     s\<lparr> candleWidthMorphStart := 0, candleWidthMorphT := - 1 \<rparr>)
               else (morphT,
                     logLerp (candleWidthMorphFrom s) (candleWidthMorphTo s) morphT,
                     s\<lparr> candleWidthMorphT := morphT \<rparr>))
      else (candleWidthMorphT s, cWidthSecs inp, s))"

text \<open>
  The candle range follows the range of the visible candles:
  \<^verbatim>\<open>if (candleRangeInitedSV.value === 0) { ...min = candleRange.min; ...; inited = 1 }
  else {
    const curRange = candleRangeMaxSV.value - candleRangeMinSV.value;
    const gapMin = Math.abs(candleRange.min - candleRangeMinSV.value);
    const gapMax = Math.abs(candleRange.max - candleRangeMaxSV.value);
    const maxGap = Math.max(gapMin, gapMax);
    const gapRat = curRange > 0 ? maxGap / curRange : 1;
    const speed = CANDLE_RANGE_LERP_SPEED +
      (1 - Math.min(gapRat, 1)) * CANDLE_RANGE_ADAPTIVE_BOOST;
    candleRangeMinSV.value = alphaLerp(candleRangeMinSV.value, candleRange.min, speed, ratio);
    candleRangeMaxSV.value = alphaLerp(candleRangeMaxSV.value, candleRange.max, speed, ratio);
  }\<close>
\<close>

definition candleRangeSpeed :: "EngineState \<Rightarrow> RangeResult \<Rightarrow> real" where
  "candleRangeSpeed s candleRange =
     (let curRange = candleRangeMax s - candleRangeMin s;
          gapMin = \<bar>rmin candleRange - candleRangeMin s\<bar>;
          gapMax = \<bar>rmax candleRange - candleRangeMax s\<bar>;
          maxGap = max gapMin gapMax;
          gapRat = (if curRange > 0 then maxGap / curRange else 1)
      in CANDLE_RANGE_LERP_SPEED + (1 - min gapRat 1) * CANDLE_RANGE_ADAPTIVE_BOOST)"

definition advanceCandleRange :: "EngineState \<Rightarrow> real \<Rightarrow> RangeResult option \<Rightarrow> EngineState" where
  "advanceCandleRange s dtRatio visible =
     (case visible of
        None \<Rightarrow> s
      | Some candleRange \<Rightarrow>
          if \<not> candleRangeInited s
          then s\<lparr> candleRangeMin := rmin candleRange, candleRangeMax := rmax candleRange,
                  candleRangeInited := True \<rparr>
          else (let speed = candleRangeSpeed s candleRange
                in s\<lparr> candleRangeMin :=
                          lerpNumber (candleRangeMin s) (rmin candleRange) speed dtRatio,
                        candleRangeMax :=
                          lerpNumber (candleRangeMax s) (rmax candleRange) speed dtRatio \<rparr>))"

text \<open>
  The range the candles are drawn against:
  \<^verbatim>\<open>let cRangeMin = candleRangeMinSV.value;
  let cRangeMax = candleRangeMaxSV.value;
  if (morphT >= 0) {
    ... if (targetVis.length > 0) {
      const tr = computeCandleRange(targetVis);
      candleWidthNewRangeMinSV.value = tr.min;
      candleWidthNewRangeMaxSV.value = tr.max;
    }
    cRangeMin = candleWidthOldRangeMinSV.value +
      (candleWidthNewRangeMinSV.value - candleWidthOldRangeMinSV.value) * morphT;
    cRangeMax = candleWidthOldRangeMaxSV.value +
      (candleWidthNewRangeMaxSV.value - candleWidthOldRangeMaxSV.value) * morphT;
  }\<close>
  The result is \<open>(cRangeMin, cRangeMax, state)\<close>.
\<close>

definition displayedCandleRange ::
  "EngineState \<Rightarrow> real \<Rightarrow> RangeResult option \<Rightarrow> real \<times> real \<times> EngineState" where
  "displayedCandleRange s morphT target =
     (if morphT \<ge> 0
      then (let s1 = (case target of
                        None \<Rightarrow> s
                      | Some tr \<Rightarrow> s\<lparr> candleWidthNewRangeMin := rmin tr,
                                        candleWidthNewRangeMax := rmax tr \<rparr>)
            in (candleWidthOldRangeMin s1
                  + (candleWidthNewRangeMin s1 - candleWidthOldRangeMin s1) * morphT,
                candleWidthOldRangeMax s1
                  + (candleWidthNewRangeMax s1 - candleWidthOldRangeMax s1) * morphT,
                s1))
      else (candleRangeMin s, candleRangeMax s, s))"

text \<open>
  The candle pipeline of one frame, as far as the Y axis goes. The line-mode range
  \<open>rangeMin\<close>, \<open>rangeSpan\<close> is used by the crosshair once the line-mode morph is past its
  midpoint. Outside candle mode the candle range is marked uninitialised again. The
  crosshair opacity of candle mode follows the distance of the pointer from the live dot
  and is reset when it is not already 0; it is not part of the effects here.
\<close>

definition candlePipeline ::
  "EngineState \<Rightarrow> FrameInput \<Rightarrow> real \<Rightarrow> real \<Rightarrow> effect list \<times> EngineState" where
  "candlePipeline s inp rangeMinNow rangeSpanNow =
     (if isCandleNow inp
      then (let s1 = startWidthMorph s inp;
                (morphT, displayCandleWidth, s2) = stepWidthMorph s1 inp;
                s3 = advanceCandleRange s2 (ratio inp) (visibleCandleRange inp displayCandleWidth);
                (cRangeMin, cRangeMax, s4) = displayedCandleRange s3 morphT (targetCandleRange inp);
                cRangeSpan = max (1/1000000) (cRangeMax - cRangeMin);
                crosshairMin = (if lineModeCrosshair inp then rangeMinNow else cRangeMin);
                crosshairSpan = (if lineModeCrosshair inp then max rangeSpanNow (1/1000000)
                                 else cRangeSpan)
            in ([CandlePaths cRangeMin cRangeSpan]
                @ (if morphT \<ge> 0 then [OldCandlePaths cRangeMin cRangeSpan] else [])
                @ (if hoverOrScrub inp \<and> visibleCandleRange inp displayCandleWidth \<noteq> None
                      \<and> candleHovered inp
                   then [CandleCrosshair crosshairMin crosshairSpan] else []),
                s4))
      else ([], if candleRangeInited s then s\<lparr> candleRangeInited := False \<rparr> else s))"

subsection \<open>Multi-series slots, range and paths\<close>

definition MAX_SERIES :: nat where
  "MAX_SERIES = 8"

definition SERIES_TOGGLE_SPEED :: real where
  "SERIES_TOGGLE_SPEED = 1/10"

text \<open>\<^verbatim>\<open>function clampIndex(n, min, max) { return Math.min(max, Math.max(min, n)); }\<close>\<close>

definition clampIndex :: "int \<Rightarrow> int \<Rightarrow> int \<Rightarrow> int" where
  "clampIndex n lo hi = min hi (max lo n)"

text \<open>
  The slots are advanced first, in the loop \<^verbatim>\<open>for (let i = 0; i < MAX_SERIES; i++)\<close>. A
  slot past the last series fades out:
  \<^verbatim>\<open>if (i >= sCount) {
    slot.active = 0;
    slot.alpha = alphaLerp(slot.alpha, 0, SERIES_TOGGLE_SPEED, ratio);
    if (slot.alpha < 0.01) slot.alpha = 0;
    continue;
  }\<close>
\<close>

definition fadeSlot :: "SeriesSlot \<Rightarrow> real \<Rightarrow> SeriesSlot" where
  "fadeSlot slot dtRatio =
     (let a0 = lerpNumber (slot_alpha slot) 0 SERIES_TOGGLE_SPEED dtRatio
      in slot\<lparr> slot_active := False, slot_alpha := (if a0 < 1/100 then 0 else a0) \<rparr>)"

text \<open>
  A slot with a series moves its visibility toward 0 or 1 and its displayed value
  toward the live value of the series, at the adaptive speed of this tick:
  \<^verbatim>\<open>slot.active = 1;
  const targetAlpha = isHidden(i) ? 0 : 1;
  slot.alpha = alphaLerp(slot.alpha, targetAlpha, SERIES_TOGGLE_SPEED, ratio);
  if (slot.alpha < 0.01) slot.alpha = 0;
  if (slot.alpha > 0.99) slot.alpha = 1;
  const liveVal = sCounts[i] > 0 ? sBufs[i][sCounts[i] * 2] : sValues[i];
  if (slot.displayValue === 0 && liveVal !== 0) {
    slot.displayValue = liveVal;
  } else {
    slot.displayValue = alphaLerp(slot.displayValue, liveVal, adaptiveSpeed, pausedRatio);
  }\<close>
  The buffer of a series has \<open>2 * count + 1\<close> entries, the last one the series value.
\<close>

definition seriesLiveValue :: "SeriesInput \<Rightarrow> real" where
  "seriesLiveValue sr =
     (if series_count sr > 0 then series_buf sr ! (series_count sr * 2) else series_value sr)"

definition advanceSlot :: "SeriesSlot \<Rightarrow> SeriesInput \<Rightarrow> real \<Rightarrow> real \<Rightarrow> real \<Rightarrow> SeriesSlot" where
  "advanceSlot slot sr dtRatio speed pausedRatio =
     (let targetAlpha = (if series_hidden sr then 0 else 1);
          a0 = lerpNumber (slot_alpha slot) targetAlpha SERIES_TOGGLE_SPEED dtRatio;
          a1 = (if a0 < 1/100 then 0 else a0);
          a2 = (if a1 > 99/100 then 1 else a1);
          liveVal = seriesLiveValue sr
      in slot\<lparr> slot_active := True,
               slot_displayValue :=
                 (if slot_displayValue slot = 0 \<and> liveVal \<noteq> 0 then liveVal
                  else lerpNumber (slot_displayValue slot) liveVal speed pausedRatio),
               slot_alpha := a2 \<rparr>)"

text \<open>
  The loop over the slots, the first \<open>sCount\<close> of which have a series. The second
  argument is the list of those series.
\<close>

fun advanceSlots ::
  "SeriesSlot list \<Rightarrow> SeriesInput list \<Rightarrow> real \<Rightarrow> real \<Rightarrow> real \<Rightarrow> SeriesSlot list" where
  "advanceSlots [] srs dtRatio speed pausedRatio = []"
| "advanceSlots (slot # slots) [] dtRatio speed pausedRatio =
     fadeSlot slot dtRatio # advanceSlots slots [] dtRatio speed pausedRatio"
| "advanceSlots (slot # slots) (sr # srs) dtRatio speed pausedRatio =
     advanceSlot slot sr dtRatio speed pausedRatio
       # advanceSlots slots srs dtRatio speed pausedRatio"

text \<open>
  The target range of multi-series mode covers the visible samples and the displayed
  value of every series that is not faded out:
  \<^verbatim>\<open>let multiMin = Number.POSITIVE_INFINITY;
  let multiMax = Number.NEGATIVE_INFINITY;
  for (let i = 0; i < sCount; i++) {
    if (slots[i].alpha < 0.01) continue;
    const buf = sBufs[i];
    const cnt = sCounts[i];
    if (cnt === 0) continue;
    const first = findFirstPointIndexAtOrAfter(buf, cnt, start - 2);
    const last = findLastPointIndexAtOrBefore(buf, cnt, filterRight);
    const safeFirst = clampIndex(first, 0, cnt - 1);
    const safeLast = clampIndex(last, -1, cnt - 1);
    for (let j = safeFirst; j <= safeLast; j++) {
      const v = ptV(buf, j);
      if (v < multiMin) multiMin = v;
      if (v > multiMax) multiMax = v;
    }
    const lv = slots[i].displayValue;
    if (lv < multiMin) multiMin = lv;
    if (lv > multiMax) multiMax = lv;
  }\<close>
  The slots read here are the ones just advanced.
\<close>

definition scanSeries :: "jsnum \<times> jsnum \<Rightarrow> SeriesSlot \<times> SeriesInput \<Rightarrow> jsnum \<times> jsnum" where
  "scanSeries acc p =
     (let slot = fst p; sr = snd p; cnt = int (series_count sr)
      in if slot_alpha slot < 1/100 then acc
         else if cnt = 0 then acc
         else (let safeFirst = clampIndex (series_first sr) 0 (cnt - 1);
                   safeLast = clampIndex (series_last sr) (- 1) (cnt - 1);
                   acc1 = foldl (scanStep (series_buf sr)) acc [safeFirst..safeLast];
                   lv = Finite (slot_displayValue slot)
               in (if jsLess lv (fst acc1) then lv else fst acc1,
                   if jsLess (snd acc1) lv then lv else snd acc1)))"

text \<open>
  \<^verbatim>\<open>if (!Number.isFinite(multiMin) || !Number.isFinite(multiMax)) {
    multiMin = 0; multiMax = 1;
  }
  const multiRawRange = multiMax - multiMin;
  const multiMargin = exaggerate ? 0.01 : 0.12;
  const multiMinRange = Math.max(
    multiRawRange * (exaggerate ? 0.02 : 0.1), exaggerate ? 0.04 : 0.4);
  if (multiRawRange < multiMinRange) {
    const mid = (multiMin + multiMax) / 2;
    multiTargetMin = mid - multiMinRange / 2;
    multiTargetMax = mid + multiMinRange / 2;
  } else {
    multiTargetMin = multiMin - multiRawRange * multiMargin;
    multiTargetMax = multiMax + multiRawRange * multiMargin;
  }\<close>
\<close>

definition multiTargetOf :: "SeriesSlot list \<Rightarrow> SeriesInput list \<Rightarrow> bool \<Rightarrow> RangeResult" where
  "multiTargetOf slots srs exag =
     (let (multiMin, multiMax) =
            (case foldl scanSeries (PosInfinity, NegInfinity) (zip slots srs) of
               (Finite a, Finite b) \<Rightarrow> (a, b)
             | _ \<Rightarrow> (0, 1));
          multiRawRange = multiMax - multiMin;
          multiMargin = (if exag then 1/100 else 12/100);
          multiMinRange = max (multiRawRange * (if exag then 2/100 else 1/10))
                              (if exag then 4/100 else 4/10)
      in if multiRawRange < multiMinRange
         then (let mid = (multiMin + multiMax) / 2
               in \<lparr> rmin = mid - multiMinRange / 2, rmax = mid + multiMinRange / 2 \<rparr>)
         else \<lparr> rmin = multiMin - multiRawRange * multiMargin,
                rmax = multiMax + multiRawRange * multiMargin \<rparr>)"

text \<open>
  In multi-series mode the next range is recomputed from that target, from the same
  snapshot and blend factor and without the half-pixel snap:
  \<^verbatim>\<open>if (multiSeriesRangeInitedSV.value === 0) {
    nextRangeMin = multiTargetMin; nextRangeMax = multiTargetMax;
    multiSeriesRangeInitedSV.value = 1;
  } else {
    const curRng = Math.max(1e-6, curRangeMax - curRangeMin);
    const snapTh = curRng * 0.5;
    nextRangeMin = multiTargetMin < curRangeMin && curRangeMin - multiTargetMin > snapTh
      ? multiTargetMin : curRangeMin + (multiTargetMin - curRangeMin) * alpha;
    nextRangeMax = multiTargetMax > curRangeMax && multiTargetMax - curRangeMax > snapTh
      ? multiTargetMax : curRangeMax + (multiTargetMax - curRangeMax) * alpha;
  }\<close>
\<close>

definition advanceMultiRange ::
  "bool \<Rightarrow> real \<Rightarrow> real \<Rightarrow> RangeResult \<Rightarrow> real \<Rightarrow> real \<times> real" where
  "advanceMultiRange inited curRangeMin curRangeMax target alpha =
     (if \<not> inited then (rmin target, rmax target)
      else (let curRng = max (1/1000000) (curRangeMax - curRangeMin)
            in (snapOrLerpMin curRangeMin (rmin target) curRng alpha,
                snapOrLerpMax curRangeMax (rmax target) curRng alpha)))"

definition yOf :: "real \<Rightarrow> real \<Rightarrow> real \<Rightarrow> real \<Rightarrow> real \<Rightarrow> real" where
  "yOf padTop innerHeight v rangeMinNow rangeSpanNow =
     padTop + (1 - (v - rangeMinNow) / max rangeSpanNow (1/1000000)) * innerHeight"

definition innerHeightOf :: "FrameInput \<Rightarrow> real" where
  "innerHeightOf inp = max 1 (height inp - paddingTop inp - paddingBottom inp)"

text \<open>
  The path and the dot of one series, against the range of the frame and ending at the
  displayed value of its slot:
  \<^verbatim>\<open>const seriesLiveY = padding.top +
    (1 - (slots[i].displayValue - rangeMin) / Math.max(rangeSpan, 1e-6)) * innerHeight;
  buildSmoothPathFromVisiblePoints(sp, buf, cnt, safeFirst, safeLast, ...,
    rangeMin, rangeSpan, padding.left, padding.top, seriesLiveX, seriesLiveY, ...);
  const clampedSeriesY = clamp(seriesLiveY, padding.top, padding.top + innerHeight);
  if (chartReveal >= 1) {
    slots[i].dotY = clampedSeriesY;
  } else {
    ... const baseY = loadingY(tipT, centerY, loadingAmplitude, loadingScroll);
    slots[i].dotY = baseY + (clampedSeriesY - baseY) * chartReveal;
  }\<close>
\<close>

definition seriesDotYOf :: "FrameInput \<Rightarrow> real \<Rightarrow> real" where
  "seriesDotYOf inp clampedSeriesY =
     (if chartReveal inp \<ge> 1 then clampedSeriesY
      else seriesTipBaseY inp + (clampedSeriesY - seriesTipBaseY inp) * chartReveal inp)"

definition seriesEffects ::
  "nat \<Rightarrow> SeriesSlot \<Rightarrow> SeriesInput \<Rightarrow> FrameInput \<Rightarrow> real \<Rightarrow> real \<Rightarrow> effect list" where
  "seriesEffects i slot sr inp rangeMinNow rangeSpanNow =
     (if slot_alpha slot < 1/100 \<or> series_count sr = 0 then []
      else (let innerHeight = innerHeightOf inp;
                seriesLiveY = yOf (paddingTop inp) innerHeight (slot_displayValue slot)
                                rangeMinNow rangeSpanNow;
                clampedSeriesY = clamp seriesLiveY (paddingTop inp) (paddingTop inp + innerHeight)
            in [SeriesPath i rangeMinNow rangeSpanNow seriesLiveY,
                SeriesDotY i (seriesDotYOf inp clampedSeriesY)]))"

text \<open>
  The loop that builds the paths, \<^verbatim>\<open>for (let i = 0; i < MAX_SERIES; i++)\<close>: every series
  path is rewound, and the path of slot \<open>i\<close> is built unless
  \<^verbatim>\<open>i >= sCount || slots[i].alpha < 0.01\<close> or the series has no sample.
\<close>

fun seriesPaths ::
  "nat \<Rightarrow> SeriesSlot list \<Rightarrow> SeriesInput list \<Rightarrow> FrameInput \<Rightarrow> real \<Rightarrow> real \<Rightarrow> effect list" where
  "seriesPaths i [] srs inp rangeMinNow rangeSpanNow = []"
| "seriesPaths i (slot # slots) [] inp rangeMinNow rangeSpanNow =
     RewindSeries i # seriesPaths (Suc i) slots [] inp rangeMinNow rangeSpanNow"
| "seriesPaths i (slot # slots) (sr # srs) inp rangeMinNow rangeSpanNow =
     RewindSeries i # seriesEffects i slot sr inp rangeMinNow rangeSpanNow
       @ seriesPaths (Suc i) slots srs inp rangeMinNow rangeSpanNow"

subsection \<open>One frame\<close>

text \<open>
  \<^verbatim>\<open>const ptsCount = pts.length > 0 ? (pts.length - 1) / 2 : 0;
  const liveValue = pts.length > 0 ? pts[ptsCount * 2] : 0;\<close>
  The buffer is built with an odd length, so the count is a whole number.
\<close>

definition ptsCountOf :: "real list \<Rightarrow> nat" where
  "ptsCountOf buf = (if length buf > 0 then (length buf - 1) div 2 else 0)"

definition liveValueOf :: "real list \<Rightarrow> real" where
  "liveValueOf buf = (if length buf > 0 then buf ! (ptsCountOf buf * 2) else 0)"

text \<open>
  \<^verbatim>\<open>const targetValue = isLiveNow ? liveValue
    : lastClamped >= 0 ? ptV(pts, lastClamped) : liveValue;\<close>
\<close>

definition targetValueOf :: "FrameInput \<Rightarrow> real" where
  "targetValueOf inp =
     (let ptsCount = int (ptsCountOf (pts inp));
          lastClamped = clampIndex (lastVisible inp) (- 1) (ptsCount - 1)
      in if isLiveNow inp then liveValueOf (pts inp)
         else if lastClamped \<ge> 0 then ptV (pts inp) (nat lastClamped)
         else liveValueOf (pts inp))"

text \<open>
  Steps 1 and 2 of the callback, SNAPSHOT and ADVANCE: the blend factor and the next
  displayed value and range of the single-series path, computed into locals from the
  state as it was committed by the previous tick.
\<close>

definition alphaOf :: "EngineState \<Rightarrow> FrameInput \<Rightarrow> real" where
  "alphaOf s inp =
     (let gap = gapRatio (targetValueOf inp) (displayValue s) (rangeMin s) (rangeMax s);
          speed = adaptiveSpeed (lerpSpeed inp) gap;
          pausedRatio = ratio inp * (1 - pauseProgress inp)
      in frameAlpha speed pausedRatio)"

text \<open>
  The slots after this tick's update of them: in multi-series mode every slot is
  advanced with \<^verbatim>\<open>ratio\<close>, \<^verbatim>\<open>adaptiveSpeed\<close> and \<^verbatim>\<open>pausedRatio\<close>, where
  \<^verbatim>\<open>const sCount = Math.min(sBufs.length, MAX_SERIES);\<close>
  Outside multi-series mode the slots are left as they are.
\<close>

definition speedOf :: "EngineState \<Rightarrow> FrameInput \<Rightarrow> real" where
  "speedOf s inp =
     adaptiveSpeed (lerpSpeed inp)
       (gapRatio (targetValueOf inp) (displayValue s) (rangeMin s) (rangeMax s))"

definition advancedSlotsOf :: "EngineState \<Rightarrow> FrameInput \<Rightarrow> SeriesSlot list" where
  "advancedSlotsOf s inp =
     (if isMultiNow inp
      then advanceSlots (seriesSlots s) (take MAX_SERIES (series inp)) (ratio inp)
             (speedOf s inp) (ratio inp * (1 - pauseProgress inp))
      else seriesSlots s)"

definition nextDisplayOf :: "EngineState \<Rightarrow> FrameInput \<Rightarrow> real" where
  "nextDisplayOf s inp =
     advanceDisplay (displayValue s) (targetValueOf inp) (alphaOf s inp) (pauseProgress inp)
       (currentRange (rangeMin s) (rangeMax s))"

definition rangeOutOf :: "EngineState \<Rightarrow> FrameInput \<Rightarrow> RangeResult" where
  "rangeOutOf s inp =
     computeRangeFromVisible (pts inp) (int (ptsCountOf (pts inp))) (firstVisible inp)
       (lastVisible inp) (displayValue s)
       (if isFinite (referenceLine inp) then referenceLine inp else NaN) (exaggerate inp)"

definition nextRangeOf :: "EngineState \<Rightarrow> FrameInput \<Rightarrow> real \<times> real" where
  "nextRangeOf s inp =
     (let (nextRangeMin, nextRangeMax, inited) =
            advanceRange (rangeInited s) (rangeMin s) (rangeMax s) (rangeOutOf s inp)
              (alphaOf s inp) (innerHeightOf inp)
      in if isMultiNow inp
         then advanceMultiRange (multiSeriesRangeInited s) (rangeMin s) (rangeMax s)
                (multiTargetOf (advancedSlotsOf s inp) (take MAX_SERIES (series inp))
                   (exaggerate inp))
                (alphaOf s inp)
         else (nextRangeMin, nextRangeMax))"

text \<open>
  Step 3, RENDER, in the order of the callback: dot, grid, crosshair, candles, series,
  line, fill, current-price line, reference line, hover line, chevrons, badge (the four
  chevron paths are rewound one by one as they are drawn). The locals
  \<^verbatim>\<open>const rangeMin = curRangeMin; const rangeMax = curRangeMax;
  const rangeSpan = Math.max(1e-6, rangeMax - rangeMin);
  const liveY = padding.top +
    (1 - (curDisplay - rangeMin) / Math.max(rangeSpan, 1e-6)) * innerHeight;
  const clampedLiveY = clamp(liveY, padding.top, padding.top + innerHeight);\<close>
  are the arguments \<open>curDisplay\<close>, \<open>rangeMinNow\<close>, \<open>rangeMaxNow\<close> here. Formatted texts, the badge
  and the decorative particles are not part of the model.

  Outside candle mode the crosshair is updated against the range of the frame while the
  pointer hovers or scrubs (its opacity is part of that update), and hidden otherwise:
  \<^verbatim>\<open>if (!isCandleNow) {
    if (hoverActiveSV.value || scrubAmountSV.value > 0) {
      updateCrosshairState(..., rangeMin, rangeSpan, ...); ...
    } else {
      crosshairOpacitySV.value = 0;
    }
  }\<close>
\<close>

definition dotYOf :: "FrameInput \<Rightarrow> real \<Rightarrow> real" where
  "dotYOf inp clampedLiveY =
     (if chartReveal inp \<ge> 1 then clampedLiveY
      else tipBaseY inp + (clampedLiveY - tipBaseY inp) * chartReveal inp)"

definition renderBeforeCandles :: "FrameInput \<Rightarrow> real \<Rightarrow> real \<Rightarrow> real \<Rightarrow> effect list" where
  "renderBeforeCandles inp curDisplay rangeMinNow rangeMaxNow =
     (let innerHeight = innerHeightOf inp;
          rangeSpan = max (1/1000000) (rangeMaxNow - rangeMinNow);
          liveY = yOf (paddingTop inp) innerHeight curDisplay rangeMinNow rangeSpan;
          clampedLiveY = clamp liveY (paddingTop inp) (paddingTop inp + innerHeight)
      in [DotY (dotYOf inp clampedLiveY)]
         @ (if showGrid inp then [GridSlots rangeMinNow rangeMaxNow rangeSpan] else [])
         @ (if \<not> isCandleNow inp
            then (if hoverOrScrub inp then [CrosshairState rangeMinNow rangeSpan]
                  else [CrosshairOpacity 0])
            else []))"

text \<open>
  The multi-series part of the frame draws the slots it is given, which are the slots
  after this tick's update. Outside multi-series mode the series paths are rewound once:
  \<^verbatim>\<open>if (multiSeriesRangeInitedSV.value !== 0) {
    multiSeriesRangeInitedSV.value = 0;
    for (let i = 0; i < MAX_SERIES; i++) { seriesPathSVs[i].value.rewind(); ... }
    activeSeriesCountSV.value = 0;
  }\<close>
\<close>

definition renderSeries ::
  "EngineState \<Rightarrow> FrameInput \<Rightarrow> SeriesSlot list \<Rightarrow> real \<Rightarrow> real \<Rightarrow> effect list" where
  "renderSeries s inp slots rangeMinNow rangeMaxNow =
     (let rangeSpan = max (1/1000000) (rangeMaxNow - rangeMinNow)
      in if isMultiNow inp
         then seriesPaths 0 slots (take MAX_SERIES (series inp)) inp rangeMinNow rangeSpan
              @ (if hoverOrScrub inp then [MultiCrosshairState rangeMinNow rangeSpan] else [])
         else (if multiSeriesRangeInited s then map RewindSeries [0..<MAX_SERIES] else []))"

definition renderLine :: "FrameInput \<Rightarrow> real \<Rightarrow> real \<Rightarrow> real \<Rightarrow> effect list" where
  "renderLine inp curDisplay rangeMinNow rangeMaxNow =
     (let innerHeight = innerHeightOf inp;
          rangeSpan = max (1/1000000) (rangeMaxNow - rangeMinNow);
          liveY = yOf (paddingTop inp) innerHeight curDisplay rangeMinNow rangeSpan;
          clampedLiveY = clamp liveY (paddingTop inp) (paddingTop inp + innerHeight)
      in [Rewind LinePath, SmoothPath LinePath rangeMinNow rangeSpan liveY]
         @ (if showFill inp
            then [Rewind FillPath, SmoothPath FillPath rangeMinNow rangeSpan liveY]
            else [Rewind FillPath])
         @ [Rewind CurrentLinePath, CurrentPriceLine clampedLiveY, Rewind ReferencePath]
         @ (case referenceLine inp of
              Finite r \<Rightarrow> [ReferenceLineY
                  (paddingTop inp + (1 - (r - rangeMinNow) / rangeSpan) * innerHeight)]
            | _ \<Rightarrow> [])
         @ [Rewind HoverLinePath]
         @ map Rewind [ArrowUpChevron0, ArrowUpChevron1, ArrowDownChevron0, ArrowDownChevron1]
         @ (if showMomentum inp \<and> \<not> isCandleNow inp
            then [Chevrons (dotYOf inp clampedLiveY)] else [])
         @ [Rewind BadgePath])"

text \<open>
  Step 4, COMMIT:
  \<^verbatim>\<open>displayValueSV.value = nextDisplay;
  rangeMinSV.value = nextRangeMin;
  rangeMaxSV.value = nextRangeMax;\<close>
\<close>

definition commit :: "EngineState \<Rightarrow> real \<Rightarrow> real \<Rightarrow> real \<Rightarrow> effect list \<times> EngineState" where
  "commit s nextDisplay nextRangeMin nextRangeMax =
     ([Commit DisplayValueSV nextDisplay, Commit RangeMinSV nextRangeMin,
       Commit RangeMaxSV nextRangeMax],
      s\<lparr> displayValue := nextDisplay, rangeMin := nextRangeMin, rangeMax := nextRangeMax \<rparr>)"

text \<open>
  The flags written while advancing: \<^verbatim>\<open>rangeInitedSV.value = 1\<close> on the first tick, and
  the multi-series flag, set in multi-series mode and cleared outside it.
\<close>

definition markInited :: "EngineState \<Rightarrow> FrameInput \<Rightarrow> EngineState" where
  "markInited s inp = s\<lparr> rangeInited := True, multiSeriesRangeInited := isMultiNow inp \<rparr>"

definition renderTick :: "EngineState \<Rightarrow> FrameInput \<Rightarrow> effect list \<times> EngineState" where
  "renderTick s inp =
     (let curDisplay = displayValue s;
          curRangeMin = rangeMin s;
          curRangeMax = rangeMax s;
          nextDisplay = nextDisplayOf s inp;
          (nextRangeMin, nextRangeMax) = nextRangeOf s inp;
          rangeSpan = max (1/1000000) (curRangeMax - curRangeMin);
          (candleEffects, s1) = candlePipeline (markInited s inp) inp curRangeMin rangeSpan;
          slots = advancedSlotsOf s inp;
          rendered = renderBeforeCandles inp curDisplay curRangeMin curRangeMax
                     @ candleEffects
                     @ renderSeries s inp slots curRangeMin curRangeMax
                     @ renderLine inp curDisplay curRangeMin curRangeMax;
          (commits, s2) = commit (s1\<lparr> seriesSlots := slots \<rparr>)
                            nextDisplay nextRangeMin nextRangeMax
      in (rendered @ commits, s2))"

text \<open>
  The callback: nothing but rewound paths for an empty layout, the empty state when no
  sample was ingested, and a rendered tick otherwise.
\<close>

definition frameCallback :: "EngineState \<Rightarrow> FrameInput \<Rightarrow> effect list \<times> EngineState" where
  "frameCallback s inp =
     (if width inp \<le> 0 \<or> height inp \<le> 0 then (map Rewind allPaths, s)
      else if ptsCountOf (pts inp) = 0
      then (CrosshairOpacity 0 # map Rewind allPaths, s)
      else renderTick s inp)"

text \<open>
  The buffer handed to the callback: the packed samples followed by the live value.
  \<^verbatim>\<open>const buf = new Float64Array(packed.buf.length + 1);
  buf.set(packed.buf);
  buf[packed.buf.length] = value;\<close>
\<close>

definition packedWithValue :: "PackedPoints \<Rightarrow> real \<Rightarrow> real list" where
  "packedWithValue packed v = packed_buf packed @ [v]"

subsection \<open>Initial state and a sample frame\<close>

text \<open>
  The values the shared values are created with, for a finite initial \<^verbatim>\<open>value\<close>:
  \<^verbatim>\<open>const displayValueSV = useSharedValue(Number.isFinite(value) ? value : 0);
  const rangeMinSV = useSharedValue(Number.isFinite(value) ? value - 0.5 : -0.5);
  const rangeMaxSV = useSharedValue(Number.isFinite(value) ? value + 0.5 : 0.5);
  const rangeInitedSV = useSharedValue(0);
  const candleWidthMorphFromSV = useSharedValue(candleWidthSecs);
  const candleWidthMorphToSV = useSharedValue(candleWidthSecs);
  const candleWidthMorphStartSV = useSharedValue(0);
  const candleWidthMorphTSV = useSharedValue(-1);\<close>
  and 0 for the remaining ones, and the series slots as
  \<^verbatim>\<open>createSeriesSlots\<close> makes them.
\<close>

definition initialState :: "real \<Rightarrow> real \<Rightarrow> EngineState" where
  "initialState v candleWidthSecs =
     \<lparr> displayValue = v, rangeMin = v - 1/2, rangeMax = v + 1/2, rangeInited = False,
       multiSeriesRangeInited = False,
       candleRangeMin = 0, candleRangeMax = 0, candleRangeInited = False,
       candleWidthMorphFrom = candleWidthSecs, candleWidthMorphTo = candleWidthSecs,
       candleWidthMorphStart = 0, candleWidthMorphT = - 1,
       candleWidthOldRangeMin = 0, candleWidthOldRangeMax = 0,
       candleWidthNewRangeMin = 0, candleWidthNewRangeMax = 0,
       seriesSlots = replicate MAX_SERIES
         \<lparr> slot_active = False, slot_displayValue = 0, slot_alpha = 0 \<rparr> \<rparr>"

text \<open>
  A frame of a 300 by 200 chart in single-series line mode over the samples
  \<open>(0, 100)\<close>, \<open>(1, 101)\<close> with live value 102, fully revealed and not paused.
\<close>

definition sampleFrame :: FrameInput where
  "sampleFrame =
     \<lparr> width = 300, height = 200, paddingTop = 12, paddingBottom = 28,
       pts = [0, 100, 1, 101, 102],
       ratio = 1, pauseProgress = 0, chartReveal = 1,
       firstVisible = 0, lastVisible = 1, isLiveNow = True,
       lerpSpeed = 8/100, exaggerate = False, referenceLine = NaN, tipBaseY = 100,
       showGrid = True, showFill = True, showMomentum = True, hoverOrScrub = False,
       isCandleNow = False, isMultiNow = False,
       cWidthSecs = 60, nowRawMs = 1000,
       visibleCandleRange = (\<lambda>w. None), targetCandleRange = None,
       candleHovered = False, lineModeCrosshair = False,
       series = [], seriesTipBaseY = 100 \<rparr>"

text \<open>
  The initial state once a first tick has adopted a range: the range is marked
  initialised.
\<close>

definition runningState :: EngineState where
  "runningState = (initialState 100 60)\<lparr> rangeInited := True \<rparr>"

text \<open>
  A state in the middle of a width morph from 60 s to 300 s candles that started at
  1000 ms, with the old-width range \<open>[1, 16]\<close> and the new-width range \<open>[4, 16]\<close>, and a
  candle-mode frame 150 ms into that morph.
\<close>

definition midMorphState :: EngineState where
  "midMorphState =
     (initialState 100 60)\<lparr> candleRangeMin := 1, candleRangeMax := 16, candleRangeInited := True,
        candleWidthMorphTo := 300, candleWidthMorphStart := 1000, candleWidthMorphT := 0,
        candleWidthOldRangeMin := 1, candleWidthOldRangeMax := 16,
        candleWidthNewRangeMin := 4, candleWidthNewRangeMax := 16 \<rparr>"

definition midMorphFrame :: FrameInput where
  "midMorphFrame = sampleFrame\<lparr> isCandleNow := True, cWidthSecs := 300, nowRawMs := 1150 \<rparr>"

text \<open>
  A multi-series chart with one series over the samples \<open>(0, 100)\<close>, \<open>(1, 101)\<close> whose
  value moved from 100 to 100.4: the state a tick leaves behind while the series
  showed 100, and the frame that follows.
\<close>

definition multiState :: EngineState where
  "multiState =
     (initialState 100 60)\<lparr> rangeInited := True, multiSeriesRangeInited := True,
        seriesSlots := \<lparr> slot_active = True, slot_displayValue = 100, slot_alpha = 1 \<rparr>
          # replicate 7 \<lparr> slot_active = False, slot_displayValue = 0, slot_alpha = 0 \<rparr> \<rparr>"

definition multiFrame :: FrameInput where
  "multiFrame =
     sampleFrame\<lparr> showGrid := False, showFill := False, showMomentum := False,
        isMultiNow := True,
        series := [\<lparr> series_buf = [0, 100, 1, 101, 502/5], series_count = 2,
                     series_value = 502/5, series_hidden = False,
                     series_first = 0, series_last = 1 \<rparr>] \<rparr>"



section \<open>Properties of the interpolation primitive\<close>


lemma blend_between:
  fixes frm to c :: real
  assumes "0 \<le> c" "c \<le> 1"
  shows "min frm to \<le> frm + (to - frm) * c \<and> frm + (to - frm) * c \<le> max frm to"
proof (cases "frm \<le> to")
  case True
  have a: "0 \<le> (to - frm) * c" using True assms by simp
  have "(to - frm) * c \<le> (to - frm) * 1"
    using True assms by (intro mult_left_mono) simp_all
  then have b: "(to - frm) * c \<le> to - frm" by (simp only: mult_1_right)
  have "min frm to = frm" "max frm to = to" using True by simp_all
  then show ?thesis using a b by linarith
next
  case False
  have a: "(to - frm) * c \<le> 0" using False assms by (simp add: mult_le_0_iff)
  have "(to - frm) * 1 \<le> (to - frm) * c"
    using False assms by (intro mult_left_mono_neg) simp_all
  then have b: "to - frm \<le> (to - frm) * c" by (simp only: mult_1_right)
  have "min frm to = to" "max frm to = frm" using False by simp_all
  then show ?thesis using a b by linarith
qed




text \<open>
  Beyond those speeds the power need not be a number: with speed 2 and half a frame the
  base is \<open>-1\<close>, the power is NaN, and the clamp passes NaN on. No caller passes such a
  speed.
\<close>

lemma alphaLerp_nan_outside: "alphaLerp 0 1 2 (1/2) = NaN"
  by (simp add: alphaLerp_def jsPow_def)

lemma jsPow_unit:
  assumes "0 \<le> s" "s \<le> 1" "0 \<le> r"
  shows "\<exists>p. jsPow (1 - s) r = Finite p \<and> 0 \<le> p \<and> p \<le> 1"
  using assms by (auto simp: jsPow_def powr_le1)

lemma jsPow_add:
  assumes "0 \<le> s" "s \<le> 1" "0 \<le> r1" "0 \<le> r2"
    and "jsPow (1 - s) r1 = Finite p1" "jsPow (1 - s) r2 = Finite p2"
  shows "jsPow (1 - s) (r1 + r2) = Finite (p1 * p2)"
  using assms by (auto simp: jsPow_def powr_add split: if_splits)

lemma alphaLerp_closed:
  assumes "0 \<le> s" "s \<le> 1" "0 \<le> r" "jsPow (1 - s) r = Finite p"
  shows "alphaLerp x to s r = Finite (to - (to - x) * p)"
proof -
  have "0 \<le> p \<and> p \<le> 1" using jsPow_unit[OF assms(1-3)] assms(4) by auto
  then have c: "clamp (1 - p) 0 1 = 1 - p" by (simp add: clamp_def)
  have "alphaLerp x to s r = Finite (x + (to - x) * clamp (1 - p) 0 1)"
    by (simp add: alphaLerp_def assms(4))
  also have "x + (to - x) * clamp (1 - p) 0 1 = to - (to - x) * p"
    unfolding c by (simp add: algebra_simps)
  finally show ?thesis .
qed

lemma alphaLerp_two:
  assumes "0 \<le> s" "s \<le> 1" "0 \<le> r1" "0 \<le> r2"
  shows "\<exists>x1. alphaLerp x to s r1 = Finite x1
            \<and> alphaLerp x1 to s r2 = alphaLerp x to s (r1 + r2)"
proof -
  obtain p1 where p1: "jsPow (1 - s) r1 = Finite p1" using jsPow_unit assms by blast
  obtain p2 where p2: "jsPow (1 - s) r2 = Finite p2" using jsPow_unit assms by blast
  have p12: "jsPow (1 - s) (r1 + r2) = Finite (p1 * p2)"
    using jsPow_add[OF assms p1 p2] .
  define x1 where "x1 = to - (to - x) * p1"
  have a: "alphaLerp x to s r1 = Finite x1"
    unfolding x1_def using alphaLerp_closed[OF assms(1,2,3) p1] .
  have b: "alphaLerp x1 to s r2 = Finite (to - (to - x1) * p2)"
    using alphaLerp_closed[OF assms(1,2,4) p2] .
  have "0 \<le> r1 + r2" using assms by simp
  then have c: "alphaLerp x to s (r1 + r2) = Finite (to - (to - x) * (p1 * p2))"
    using alphaLerp_closed[OF assms(1,2) _ p12] by simp
  have "to - (to - x1) * p2 = to - (to - x) * (p1 * p2)"
    by (simp add: x1_def algebra_simps)
  then show ?thesis using a b c by simp
qed

lemma alphaLerpTicks_sum:
  assumes "0 \<le> s" "s \<le> 1"
  shows "\<forall>r \<in> set rs. 0 \<le> r \<Longrightarrow>
     alphaLerpTicks x to s rs = alphaLerp x to s (sum_list rs)"
proof (induction rs arbitrary: x)
  case Nil
  then show ?case by (simp add: alphaLerp_def jsPow_def clamp_def)
next
  case (Cons r rs)
  have r0: "0 \<le> r" and rs0: "0 \<le> sum_list rs" and all: "\<forall>r \<in> set rs. 0 \<le> r"
    using Cons.prems by (simp_all add: sum_list_nonneg)
  obtain x1 where x1: "alphaLerp x to s r = Finite x1"
    and comp: "alphaLerp x1 to s (sum_list rs) = alphaLerp x to s (r + sum_list rs)"
    using alphaLerp_two[OF assms r0 rs0] by blast
  show ?case using Cons.IH[OF all, of x1] x1 comp by simp
qed

text \<open>
  Claim C3. For a speed in \<open>[0, 1]\<close> and non-negative frame ratios, a step with ratio \<open>r1\<close>
  followed by a step with ratio \<open>r2\<close> toward the same target gives exactly the result of one
  step with ratio \<open>r1 + r2\<close>; hence any sequence of small ticks lands exactly (so within
  every epsilon) where the single tick of the summed duration lands.
\<close>

theorem alphaLerp_frame_rate_independent:
  assumes "0 \<le> s" "s \<le> 1"
  shows "(0 \<le> r1 \<and> 0 \<le> r2 \<longrightarrow>
           (\<exists>x1. alphaLerp x to s r1 = Finite x1
              \<and> alphaLerp x1 to s r2 = alphaLerp x to s (r1 + r2)))
       \<and> ((\<forall>r \<in> set rs. 0 \<le> r) \<longrightarrow>
           alphaLerpTicks x to s rs = alphaLerp x to s (sum_list rs))"
  using alphaLerp_two[OF assms] alphaLerpTicks_sum[OF assms] by blast

theorem alphaLerp_frame_rate_independent_witness:
  "(0 \<le> (8/100::real) \<and> (8/100::real) \<le> 1 \<and> (0::real) \<le> 1 \<and> (0::real) \<le> 2) \<and>
   (\<exists>x1. alphaLerp 0 100 (8/100) 1 = Finite x1
              \<and> alphaLerp x1 100 (8/100) 2 = alphaLerp 0 100 (8/100) (1 + 2))
   \<and> alphaLerpTicks 0 100 (8/100) [1, 1, 1] = alphaLerp 0 100 (8/100) (sum_list [1, 1, 1])"
  using alphaLerp_frame_rate_independent[of "8/100" 1 2 0 100 "[1,1,1]"] by simp

section \<open>Properties of the convergence controller\<close>

lemma clamp_upper: "clamp n lo hi \<le> hi"
  unfolding clamp_def by simp

lemma clamp_lower: "lo \<le> hi \<Longrightarrow> lo \<le> clamp n lo hi"
  unfolding clamp_def by simp

lemma clamp_mono: "n1 \<le> n2 \<Longrightarrow> clamp n1 lo hi \<le> clamp n2 lo hi"
  unfolding clamp_def by (simp add: min_def max_def)

lemma frameAlpha_jsPow:
  assumes "0 < pausedRatio"
  shows "jsPow (1 - adaptiveSpeed baseSpeed g) pausedRatio
           = Finite (1 - frameAlpha (adaptiveSpeed baseSpeed g) pausedRatio)"
proof -
  have "adaptiveSpeed baseSpeed g \<le> 8/10" unfolding adaptiveSpeed_def by (rule clamp_upper)
  then have "0 < 1 - adaptiveSpeed baseSpeed g" by linarith
  then show ?thesis using assms by (simp add: jsPow_def frameAlpha_def)
qed

lemma adaptiveSpeed_bounds: "1/1000 \<le> adaptiveSpeed l g \<and> adaptiveSpeed l g \<le> 8/10"
proof
  show "1/1000 \<le> adaptiveSpeed l g"
    unfolding adaptiveSpeed_def by (rule clamp_lower) simp
  show "adaptiveSpeed l g \<le> 8/10"
    unfolding adaptiveSpeed_def by (rule clamp_upper)
qed

lemma adaptiveSpeed_anti: "g1 \<le> g2 \<Longrightarrow> adaptiveSpeed l g2 \<le> adaptiveSpeed l g1"
  unfolding adaptiveSpeed_def by (rule clamp_mono) (simp add: mult_right_mono)

lemma frameAlpha_mono_speed:
  assumes "s1 \<le> s2" "s2 \<le> 1"
  shows "frameAlpha s1 r \<le> frameAlpha s2 r"
proof (cases "r \<le> 0")
  case True then show ?thesis by (simp add: frameAlpha_def)
next
  case False
  then have "(1 - s2) powr r \<le> (1 - s1) powr r"
    using assms by (intro powr_mono2) simp_all
  then show ?thesis using False by (simp add: frameAlpha_def)
qed

text \<open>
  Claim C2 (as amended). The adaptive speed is monotonically non-increasing in the gap
  ratio: for the same base speed and \<open>g1 \<le> g2\<close> the speed (and the blend factor it yields)
  at \<open>g2\<close> is at most the one at \<open>g1\<close>. At gap ratio 0 it is the base speed plus 0.2, at gap
  ratio 1 the base speed itself, both clamped to \<open>[0.001, 0.8]\<close>.
\<close>

theorem adaptiveSpeed_gap_antitone:
  assumes "g1 \<le> g2"
  shows "adaptiveSpeed baseSpeed g2 \<le> adaptiveSpeed baseSpeed g1
       \<and> frameAlpha (adaptiveSpeed baseSpeed g2) pausedRatio
           \<le> frameAlpha (adaptiveSpeed baseSpeed g1) pausedRatio
       \<and> adaptiveSpeed baseSpeed 0 = clamp (baseSpeed + 2/10) (1/1000) (8/10)
       \<and> adaptiveSpeed baseSpeed 1 = clamp baseSpeed (1/1000) (8/10)"
proof -
  have a: "adaptiveSpeed baseSpeed g2 \<le> adaptiveSpeed baseSpeed g1"
    using adaptiveSpeed_anti[OF assms] .
  have "adaptiveSpeed baseSpeed g1 \<le> 1" using adaptiveSpeed_bounds[of baseSpeed g1] by linarith
  then have b: "frameAlpha (adaptiveSpeed baseSpeed g2) pausedRatio
           \<le> frameAlpha (adaptiveSpeed baseSpeed g1) pausedRatio"
    using frameAlpha_mono_speed[OF a] by simp
  show ?thesis using a b by (simp add: adaptiveSpeed_def)
qed

theorem adaptiveSpeed_gap_antitone_witness:
  "gapRatio 0 0 0 1 \<le> gapRatio 1 0 0 1
   \<and> adaptiveSpeed (8/100) (gapRatio 1 0 0 1) \<le> adaptiveSpeed (8/100) (gapRatio 0 0 0 1)
   \<and> adaptiveSpeed (8/100) (gapRatio 0 0 0 1) = 28/100
   \<and> adaptiveSpeed (8/100) (gapRatio 1 0 0 1) = 8/100"
  using adaptiveSpeed_gap_antitone[of "gapRatio 0 0 0 1" "gapRatio 1 0 0 1" "8/100" 1]
  by (simp add: gapRatio_def currentRange_def clamp_def adaptiveSpeed_def)

text \<open>
  As stated (speed non-decreasing in the gap ratio) the claim fails: with base speed 0.08
  and range \<open>[0, 1]\<close>, a zero gap is advanced at 0.28 and a full-range gap at 0.08.
\<close>

theorem adaptiveSpeed_increasing_counterexample:
  "gapRatio 0 0 0 1 \<le> gapRatio 1 0 0 1
   \<and> \<not> adaptiveSpeed (8/100) (gapRatio 0 0 0 1) \<le> adaptiveSpeed (8/100) (gapRatio 1 0 0 1)"
  by (simp add: gapRatio_def currentRange_def clamp_def adaptiveSpeed_def)

lemma rangeSnapThreshold_pos: "0 < rangeSnapThreshold curRange innerHeight"
  by (simp add: rangeSnapThreshold_def VALUE_SNAP_THRESHOLD_def Let_def)

section \<open>Properties of the target range\<close>

lemma ptV_at_cases:
  "ptV_at buf i = Undefined \<or> (\<exists>v. ptV_at buf i = Finite v)"
  by (simp add: ptV_at_def)

lemma scanStep_inv:
  assumes "(acc = (PosInfinity, NegInfinity) \<and> S = {})
         \<or> (\<exists>a b. acc = (Finite a, Finite b) \<and> a \<in> S \<and> b \<in> S \<and> (\<forall>v\<in>S. a \<le> v \<and> v \<le> b))"
  shows "(scanStep buf acc i = (PosInfinity, NegInfinity) \<and> S \<union> {v. ptV_at buf i = Finite v} = {})
         \<or> (\<exists>a b. scanStep buf acc i = (Finite a, Finite b)
               \<and> a \<in> S \<union> {v. ptV_at buf i = Finite v} \<and> b \<in> S \<union> {v. ptV_at buf i = Finite v}
               \<and> (\<forall>v\<in>S \<union> {v. ptV_at buf i = Finite v}. a \<le> v \<and> v \<le> b))"
proof -
  consider (u) "ptV_at buf i = Undefined" | (f) v where "ptV_at buf i = Finite v"
    using ptV_at_cases by blast
  then show ?thesis
  proof cases
    case u
    then have "scanStep buf acc i = acc" by (cases acc) (simp add: scanStep_def)
    moreover have "{v. ptV_at buf i = Finite v} = {}" using u by simp
    ultimately show ?thesis using assms by simp
  next
    case f
    then have s: "{w. ptV_at buf i = Finite w} = {v}" by auto
    from assms show ?thesis
    proof
      assume "acc = (PosInfinity, NegInfinity) \<and> S = {}"
      then show ?thesis using f s by (simp add: scanStep_def Let_def)
    next
      assume "\<exists>a b. acc = (Finite a, Finite b) \<and> a \<in> S \<and> b \<in> S \<and> (\<forall>v\<in>S. a \<le> v \<and> v \<le> b)"
      then obtain a b where ab: "acc = (Finite a, Finite b)" "a \<in> S" "b \<in> S"
        "\<forall>v\<in>S. a \<le> v \<and> v \<le> b" by blast
      have "a \<le> b" using ab by blast
      then show ?thesis using f ab unfolding s
        by (auto simp: scanStep_def Let_def)
    qed
  qed
qed

lemma scan_fold_inv:
  assumes "(acc = (PosInfinity, NegInfinity) \<and> S = {})
         \<or> (\<exists>a b. acc = (Finite a, Finite b) \<and> a \<in> S \<and> b \<in> S \<and> (\<forall>v\<in>S. a \<le> v \<and> v \<le> b))"
  shows "(foldl (scanStep buf) acc js = (PosInfinity, NegInfinity)
            \<and> S \<union> {v. \<exists>i\<in>set js. ptV_at buf i = Finite v} = {})
         \<or> (\<exists>a b. foldl (scanStep buf) acc js = (Finite a, Finite b)
               \<and> a \<in> S \<union> {v. \<exists>i\<in>set js. ptV_at buf i = Finite v}
               \<and> b \<in> S \<union> {v. \<exists>i\<in>set js. ptV_at buf i = Finite v}
               \<and> (\<forall>v\<in>S \<union> {v. \<exists>i\<in>set js. ptV_at buf i = Finite v}. a \<le> v \<and> v \<le> b))"
  using assms
proof (induction js arbitrary: acc S)
  case Nil
  then show ?case by simp
next
  case (Cons j js)
  have eq: "(S \<union> {v. ptV_at buf j = Finite v}) \<union> {v. \<exists>i\<in>set js. ptV_at buf i = Finite v}
          = S \<union> {v. \<exists>i\<in>set (j # js). ptV_at buf i = Finite v}" by auto
  show ?case
    using Cons.IH[OF scanStep_inv[OF Cons.prems, of buf j]] unfolding eq by simp
qed

lemma scanVisible_char:
  defines "V \<equiv> \<lambda>buf cnt f l. {v. \<exists>i. f \<le> i \<and> i \<le> min l (cnt - 1) \<and> ptV_at buf i = Finite v}"
  shows "(scanVisible buf cnt f l = (PosInfinity, NegInfinity) \<and> V buf cnt f l = {})
         \<or> (\<exists>a b. scanVisible buf cnt f l = (Finite a, Finite b)
               \<and> a \<in> V buf cnt f l \<and> b \<in> V buf cnt f l
               \<and> (\<forall>v\<in>V buf cnt f l. a \<le> v \<and> v \<le> b))"
proof -
  have eq: "{v. \<exists>i\<in>set [f..min l (cnt - 1)]. ptV_at buf i = Finite v} = V buf cnt f l"
    unfolding V_def by auto
  show ?thesis
    using scan_fold_inv[of "(PosInfinity, NegInfinity)" "{}" buf "[f..min l (cnt - 1)]"]
    unfolding scanVisible_def Let_def eq[symmetric] by simp
qed

lemma dataExtent_covers:
  assumes "dataExtent buf cnt f l cur ref = (mn, mx)"
  shows "mn \<le> cur \<and> cur \<le> mx
       \<and> (\<forall>i v. f \<le> i \<and> i \<le> min l (cnt - 1) \<and> ptV_at buf i = Finite v \<longrightarrow> mn \<le> v \<and> v \<le> mx)
       \<and> (\<forall>r. ref = Finite r \<longrightarrow> mn \<le> r \<and> r \<le> mx)"
proof -
  let ?V = "{v. \<exists>i. f \<le> i \<and> i \<le> min l (cnt - 1) \<and> ptV_at buf i = Finite v}"
  obtain mn0 mx0 where m0: "(case scanVisible buf cnt f l of
               (Finite a, Finite b) \<Rightarrow> (a, b)
             | _ \<Rightarrow> (cur - 1/2, cur + 1/2)) = (mn0, mx0)" by fastforce
  have cover0: "\<forall>v\<in>?V. mn0 \<le> v \<and> v \<le> mx0"
    using scanVisible_char[of buf cnt f l] m0 by auto
  define mn1 where "mn1 = (if cur < mn0 then cur else mn0)"
  define mx1 where "mx1 = (if cur > mx0 then cur else mx0)"
  have c1: "mn1 \<le> cur \<and> cur \<le> mx1 \<and> mn1 \<le> mn0 \<and> mx0 \<le> mx1"
    by (simp add: mn1_def mx1_def)
  have de: "(mn, mx) = (case ref of
            Finite r \<Rightarrow> (if r < mn1 then r else mn1, if r > mx1 then r else mx1)
          | _ \<Rightarrow> (mn1, mx1))"
    using assms unfolding dataExtent_def m0 Let_def mn1_def mx1_def by simp
  have c2: "mn \<le> mn1 \<and> mx1 \<le> mx \<and> (\<forall>r. ref = Finite r \<longrightarrow> mn \<le> r \<and> r \<le> mx)"
    using de by (cases ref) (auto split: if_splits)
  show ?thesis using cover0 c1 c2 by fastforce
qed

lemma range_contains_extent:
  assumes "dataExtent buf cnt f l cur ref = (mn, mx)"
  shows "rmin (computeRangeFromVisible buf cnt f l cur ref ex) \<le> mn
       \<and> mx \<le> rmax (computeRangeFromVisible buf cnt f l cur ref ex)
       \<and> minRangeOf ex (mx - mn) \<le> rmax (computeRangeFromVisible buf cnt f l cur ref ex)
                  - rmin (computeRangeFromVisible buf cnt f l cur ref ex)"
proof -
  have le: "mn \<le> mx" using dataExtent_covers[OF assms] by linarith
  have pos: "0 < minRangeOf ex (mx - mn)" by (simp add: minRangeOf_def max_def)
  show ?thesis
  proof (cases "mx - mn < minRangeOf ex (mx - mn)")
    case True
    then have "computeRangeFromVisible buf cnt f l cur ref ex =
        \<lparr> rmin = (mn + mx) / 2 - minRangeOf ex (mx - mn) / 2,
          rmax = (mn + mx) / 2 + minRangeOf ex (mx - mn) / 2 \<rparr>"
      by (simp add: computeRangeFromVisible_def assms Let_def)
    then show ?thesis using True le by (simp add: field_simps)
  next
    case False
    define d :: real where "d = (mx - mn) * (if ex then 1/100 else 12/100)"
    have d0: "0 \<le> d" unfolding d_def using le by simp
    from False have r: "computeRangeFromVisible buf cnt f l cur ref ex =
        \<lparr> rmin = mn - d, rmax = mx + d \<rparr>"
      by (simp add: computeRangeFromVisible_def assms Let_def d_def)
    have "minRangeOf ex (mx - mn) \<le> mx - mn" using False by simp
    then show ?thesis unfolding r using d0 by simp
  qed
qed

lemma dataExtent_flat:
  assumes some: "\<exists>i. f \<le> i \<and> i \<le> min l (cnt - 1) \<and> ptV_at buf i = Finite c"
    and flat: "\<forall>i v. f \<le> i \<and> i \<le> min l (cnt - 1) \<and> ptV_at buf i = Finite v \<longrightarrow> v = c"
    and ref: "\<forall>r. ref = Finite r \<longrightarrow> r = c"
  shows "dataExtent buf cnt f l c ref = (c, c)"
proof -
  let ?V = "{v. \<exists>i. f \<le> i \<and> i \<le> min l (cnt - 1) \<and> ptV_at buf i = Finite v}"
  have V: "?V = {c}" using some flat by blast
  have "scanVisible buf cnt f l = (Finite c, Finite c)"
    using scanVisible_char[of buf cnt f l] unfolding V by auto
  then show ?thesis using ref by (cases ref) (simp_all add: dataExtent_def)
qed

text \<open>
  Claim C7 (as amended). The target range contains every visible sample value and the
  current displayed value, and in normal mode its span is at least
  \<open>max (rawRange * 0.1) 0.4\<close>, where \<open>rawRange\<close> is the extent of the data the range covers.
  When the visible values and the current displayed value all equal \<open>c\<close> (and no finite
  reference value differs from \<open>c\<close>), the target is exactly \<open>[c - 0.2, c + 0.2]\<close>.
\<close>

theorem computeRangeFromVisible_contains_data:
  fixes buf :: "real list" and cnt f l :: int and cur c :: real and ref :: jsnum and ex :: bool
  defines "R \<equiv> computeRangeFromVisible buf cnt f l cur ref ex"
    and "E \<equiv> dataExtent buf cnt f l cur ref"
    and "Rflat \<equiv> computeRangeFromVisible buf cnt f l c ref False"
  shows "(\<forall>i v. f \<le> i \<and> i \<le> min l (cnt - 1) \<and> ptV_at buf i = Finite v
             \<longrightarrow> rmin R \<le> v \<and> v \<le> rmax R)
       \<and> rmin R \<le> cur \<and> cur \<le> rmax R
       \<and> (\<not> ex \<longrightarrow> max ((snd E - fst E) * (1/10)) (4/10) \<le> rmax R - rmin R)
       \<and> ((\<exists>i. f \<le> i \<and> i \<le> min l (cnt - 1) \<and> ptV_at buf i = Finite c)
            \<and> (\<forall>i v. f \<le> i \<and> i \<le> min l (cnt - 1) \<and> ptV_at buf i = Finite v \<longrightarrow> v = c)
            \<and> (\<forall>r. ref = Finite r \<longrightarrow> r = c)
           \<longrightarrow> rmin Rflat = c - 2/10 \<and> rmax Rflat = c + 2/10)"
proof -
  obtain mn mx where E: "dataExtent buf cnt f l cur ref = (mn, mx)" by fastforce
  note cov = dataExtent_covers[OF E]
  note rng = range_contains_extent[OF E, of ex, folded R_def]
  have a: "\<forall>i v. f \<le> i \<and> i \<le> min l (cnt - 1) \<and> ptV_at buf i = Finite v
             \<longrightarrow> rmin R \<le> v \<and> v \<le> rmax R"
    using cov rng by fastforce
  have b: "rmin R \<le> cur \<and> cur \<le> rmax R" using cov rng by linarith
  have c: "\<not> ex \<longrightarrow> max ((snd E - fst E) * (1/10)) (4/10) \<le> rmax R - rmin R"
  proof
    assume "\<not> ex"
    then have "minRangeOf ex (mx - mn) = max ((mx - mn) * (1/10)) (4/10)"
      by (simp add: minRangeOf_def)
    then show "max ((snd E - fst E) * (1/10)) (4/10) \<le> rmax R - rmin R"
      using rng unfolding E_def E by (simp only: fst_conv snd_conv)
  qed
  have d: "(\<exists>i. f \<le> i \<and> i \<le> min l (cnt - 1) \<and> ptV_at buf i = Finite c)
            \<and> (\<forall>i v. f \<le> i \<and> i \<le> min l (cnt - 1) \<and> ptV_at buf i = Finite v \<longrightarrow> v = c)
            \<and> (\<forall>r. ref = Finite r \<longrightarrow> r = c)
           \<longrightarrow> rmin Rflat = c - 2/10 \<and> rmax Rflat = c + 2/10"
  proof
    assume h: "(\<exists>i. f \<le> i \<and> i \<le> min l (cnt - 1) \<and> ptV_at buf i = Finite c)
            \<and> (\<forall>i v. f \<le> i \<and> i \<le> min l (cnt - 1) \<and> ptV_at buf i = Finite v \<longrightarrow> v = c)
            \<and> (\<forall>r. ref = Finite r \<longrightarrow> r = c)"
    have "dataExtent buf cnt f l c ref = (c, c)"
      using dataExtent_flat[of f l cnt buf c ref] h by blast
    then show "rmin Rflat = c - 2/10 \<and> rmax Rflat = c + 2/10"
      unfolding Rflat_def by (simp add: computeRangeFromVisible_def minRangeOf_def)
  qed
  show ?thesis using a b c d by blast
qed

lemma upto_0_2: "[0..2::int] = [0, 1, 2]"
  by (simp add: upto.simps)

text \<open>
  Flat visible data alone does not centre the target on the data: three samples at 100
  with the displayed value at 100.3 give the target \<open>[99.95, 100.35]\<close>, centred on 100.15.
\<close>

theorem computeRangeFromVisible_flat_counterexample:
  "ptV_at [0,100,1,100,2,100] 0 = Finite 100
   \<and> ptV_at [0,100,1,100,2,100] 1 = Finite 100
   \<and> ptV_at [0,100,1,100,2,100] 2 = Finite 100
   \<and> computeRangeFromVisible [0,100,1,100,2,100] 3 0 2 (1003/10) NaN False
       = \<lparr> rmin = 1999/20, rmax = 2007/20 \<rparr>
   \<and> (rmin (computeRangeFromVisible [0,100,1,100,2,100] 3 0 2 (1003/10) NaN False)
        + rmax (computeRangeFromVisible [0,100,1,100,2,100] 3 0 2 (1003/10) NaN False)) / 2 \<noteq> 100
   \<and> \<not> rmin (computeRangeFromVisible [0,100,1,100,2,100] 3 0 2 (1003/10) NaN False)
          \<le> 100 - 2/10"
  by (simp add: computeRangeFromVisible_def dataExtent_def scanVisible_def scanStep_def
        ptV_at_def ptV_def minRangeOf_def upto_0_2 Let_def)

theorem computeRangeFromVisible_contains_data_witness:
  "ptV_at [0,100,1,103,2,100] 1 = Finite 103
   \<and> rmin (computeRangeFromVisible [0,100,1,103,2,100] 3 0 2 101 NaN False) \<le> 103
   \<and> 103 \<le> rmax (computeRangeFromVisible [0,100,1,103,2,100] 3 0 2 101 NaN False)
   \<and> 4/10 \<le> rmax (computeRangeFromVisible [0,100,1,103,2,100] 3 0 2 101 NaN False)
              - rmin (computeRangeFromVisible [0,100,1,103,2,100] 3 0 2 101 NaN False)
   \<and> rmin (computeRangeFromVisible [0,100,1,100,2,100] 3 0 2 100 NaN False) = 100 - 2/10
   \<and> rmax (computeRangeFromVisible [0,100,1,100,2,100] 3 0 2 100 NaN False) = 100 + 2/10"
proof -
  let ?R = "computeRangeFromVisible [0,100,1,103,2,100] 3 0 2 101 NaN False"
  note T = computeRangeFromVisible_contains_data[of 0 2 3 "[0,100,1,103,2,100]" 101 NaN False 0]
  have v: "ptV_at [0,100,1,103,2,100] 1 = Finite 103"
    by (simp add: ptV_at_def ptV_def)
  from T have "\<forall>i v. 0 \<le> i \<and> i \<le> min 2 (3 - 1) \<and> ptV_at [0,100,1,103,2,100] i = Finite v
             \<longrightarrow> rmin ?R \<le> v \<and> v \<le> rmax ?R" by blast
  from this[rule_format, of 1 103] have a: "rmin ?R \<le> 103 \<and> 103 \<le> rmax ?R"
    using v by simp
  from T have "\<not> False \<longrightarrow>
      max ((snd (dataExtent [0,100,1,103,2,100] 3 0 2 101 NaN)
            - fst (dataExtent [0,100,1,103,2,100] 3 0 2 101 NaN)) * (1/10)) (4/10)
        \<le> rmax ?R - rmin ?R" by blast
  then have b: "4/10 \<le> rmax ?R - rmin ?R" by (simp only: not_False_eq_True simp_thms max.bounded_iff)
  note F = computeRangeFromVisible_contains_data[of 0 2 3 "[0,100,1,100,2,100]" 100 NaN False 100]
  have f0: "ptV_at [0,100,1,100,2,100] 0 = Finite 100"
    by (simp add: ptV_at_def ptV_def)
  have f1: "\<forall>i v. 0 \<le> i \<and> i \<le> min 2 (3 - 1) \<and> ptV_at [0,100,1,100,2,100] i = Finite v
        \<longrightarrow> v = 100"
  proof (intro allI impI)
    fix i :: int and v :: real
    assume h: "0 \<le> i \<and> i \<le> min 2 (3 - 1) \<and> ptV_at [0,100,1,100,2,100] i = Finite v"
    then have "i = 0 \<or> i = 1 \<or> i = 2" by auto
    then show "v = 100" using h by (auto simp: ptV_at_def ptV_def)
  qed
  have f2: "\<exists>i. 0 \<le> i \<and> i \<le> min 2 (3 - 1) \<and> ptV_at [0,100,1,100,2,100] i = Finite 100"
    using f0 by (intro exI[of _ 0]) simp
  have c: "rmin (computeRangeFromVisible [0,100,1,100,2,100] 3 0 2 100 NaN False) = 100 - 2/10
   \<and> rmax (computeRangeFromVisible [0,100,1,100,2,100] 3 0 2 100 NaN False) = 100 + 2/10"
    using F f1 f2 by blast
  show ?thesis using v a b c by blast
qed

section \<open>Properties of the spline evaluation\<close>

lemma findSegment_adjacent:
  assumes "lo < hi" "ptT buf lo \<le> t" "t < ptT buf hi"
  shows "\<exists>l. findSegment buf t lo hi = (l, Suc l) \<and> lo \<le> l \<and> Suc l \<le> hi
             \<and> ptT buf l \<le> t \<and> t < ptT buf (Suc l)"
  using assms
proof (induction buf t lo hi rule: findSegment.induct)
  case (1 buf t lo hi)
  show ?case
  proof (cases "hi - lo > 1")
    case False
    then have hi: "hi = Suc lo" using "1.prems"(1) by simp
    have "findSegment buf t lo hi = (lo, hi)"
      using False by (subst findSegment.simps) simp
    then show ?thesis using "1.prems" hi by simp
  next
    case True
    define mid where "mid = (lo + hi) div 2"
    have m: "lo < mid" "mid < hi" using True by (simp_all add: mid_def)
    show ?thesis
    proof (cases "ptT buf mid \<le> t")
      case le: True
      have "\<exists>l. findSegment buf t mid hi = (l, Suc l) \<and> mid \<le> l \<and> Suc l \<le> hi
             \<and> ptT buf l \<le> t \<and> t < ptT buf (Suc l)"
        using "1.IH"(1)[OF True mid_def le m(2) le "1.prems"(3)] .
      moreover have "findSegment buf t lo hi = findSegment buf t mid hi"
        using True le by (subst findSegment.simps) (simp add: mid_def Let_def)
      ultimately show ?thesis using m by auto
    next
      case gt: False
      then have lt: "t < ptT buf mid" by simp
      have "\<exists>l. findSegment buf t lo mid = (l, Suc l) \<and> lo \<le> l \<and> Suc l \<le> mid
             \<and> ptT buf l \<le> t \<and> t < ptT buf (Suc l)"
        using "1.IH"(2)[OF True mid_def gt m(1) "1.prems"(2) lt] .
      moreover have "findSegment buf t lo hi = findSegment buf t lo mid"
        using True gt by (subst findSegment.simps) (simp add: mid_def Let_def)
      ultimately show ?thesis using m by auto
    qed
  qed
qed

lemma strict_times_mono:
  assumes "\<forall>i j. i < j \<and> j < cnt \<longrightarrow> ptT buf i < ptT buf j" "i \<le> j" "j < cnt"
  shows "ptT buf i \<le> ptT buf j"
  using assms by (cases "i = j") (auto simp: less_imp_le)

lemma segment_unique:
  assumes inc: "\<forall>i j. i < j \<and> j < cnt \<longrightarrow> ptT buf i < ptT buf j"
    and "Suc l < cnt" "Suc i < cnt"
    and "ptT buf l \<le> t" "t < ptT buf (Suc l)"
    and "ptT buf i \<le> t" "t < ptT buf (Suc i)"
  shows "l = i"
proof (rule ccontr)
  assume "l \<noteq> i"
  then consider "Suc l \<le> i" | "Suc i \<le> l" by linarith
  then show False
  proof cases
    case 1
    then have "ptT buf (Suc l) \<le> ptT buf i"
      using strict_times_mono[OF inc, of "Suc l" i] assms(3) by simp
    then show False using assms by linarith
  next
    case 2
    then have "ptT buf (Suc i) \<le> ptT buf l"
      using strict_times_mono[OF inc, of "Suc i" l] assms(2) by simp
    then show False using assms by linarith
  qed
qed

lemma hermite_at_0: "hermite 0 v0 v1 seg m0 m1 = v0"
  by (simp add: hermite_def)

text \<open>Inside the buffer the search returns the segment that holds t.\<close>

lemma interpolate_inner:
  assumes inc: "\<forall>i j. i < j \<and> j < cnt \<longrightarrow> ptT buf i < ptT buf j"
    and i: "Suc i < cnt" and t: "ptT buf i \<le> t" "t < ptT buf (Suc i)"
    and nofirst: "\<not> t \<le> ptT buf 0"
  shows "interpolateAtTime buf cnt t =
     (let delta = (ptV buf (Suc i) - ptV buf i) / (ptT buf (Suc i) - ptT buf i);
          (m0, m1) = fritschCarlson delta
                (tangentLo i (leftSecant buf i delta) delta)
                (tangentHi cnt (Suc i) delta (rightSecant buf cnt (Suc i) delta))
      in hermite ((t - ptT buf i) / (ptT buf (Suc i) - ptT buf i)) (ptV buf i) (ptV buf (Suc i))
           (ptT buf (Suc i) - ptT buf i) m0 m1)"
proof -
  have "Suc i \<le> cnt - 1" "cnt - 1 < cnt" using i by simp_all
  then have "ptT buf (Suc i) \<le> ptT buf (cnt - 1)"
    using strict_times_mono[OF inc] by blast
  then have last: "t < ptT buf (cnt - 1)" using t by linarith
  have first: "ptT buf 0 \<le> t" using nofirst by simp
  have "0 < cnt - 1" using i by simp
  then obtain l where l: "findSegment buf t 0 (cnt - 1) = (l, Suc l)" "Suc l \<le> cnt - 1"
      "ptT buf l \<le> t" "t < ptT buf (Suc l)"
    using findSegment_adjacent[of 0 "cnt - 1" buf t] first last by blast
  have "l = i" using segment_unique[OF inc _ i l(3,4) t] l(2) i by simp
  then have seg: "findSegment buf t 0 (cnt - Suc 0) = (i, Suc i)" using l(1) by simp
  have pos: "\<not> ptT buf (Suc i) - ptT buf i \<le> 0" using t by simp
  have c0: "cnt \<noteq> 0" using i by simp
  have nl: "\<not> ptT buf (cnt - 1) \<le> t" using last by simp
  show ?thesis
    unfolding interpolateAtTime_def using c0 nofirst nl pos
    by (simp add: seg Let_def)
qed

lemma interpolate_knots_aux:
  assumes len: "cnt * 2 \<le> length buf"
    and inc: "\<forall>i j. i < j \<and> j < cnt \<longrightarrow> ptT buf i < ptT buf j"
  shows "(\<forall>i < cnt. interpolateAtTime buf cnt (ptT buf i) = ptV buf i)
       \<and> (0 < cnt \<longrightarrow> (\<forall>t \<le> ptT buf 0. interpolateAtTime buf cnt t = ptV buf 0))
       \<and> (0 < cnt \<longrightarrow> (\<forall>t \<ge> ptT buf (cnt - 1). interpolateAtTime buf cnt t = ptV buf (cnt - 1)))"
proof (intro conjI allI impI)
  fix t assume "0 < cnt" "t \<le> ptT buf 0"
  then show "interpolateAtTime buf cnt t = ptV buf 0"
    by (simp add: interpolateAtTime_def)
next
  fix t assume c: "0 < cnt" and t: "t \<ge> ptT buf (cnt - 1)"
  show "interpolateAtTime buf cnt t = ptV buf (cnt - 1)"
  proof (cases "t \<le> ptT buf 0")
    case False
    then show ?thesis using c t by (simp add: interpolateAtTime_def)
  next
    case True
    have "cnt - 1 = 0"
    proof (rule ccontr)
      assume "cnt - 1 \<noteq> 0"
      then have "ptT buf 0 < ptT buf (cnt - 1)" using inc c by simp
      then show False using True t by linarith
    qed
    then show ?thesis using c True by (simp add: interpolateAtTime_def)
  qed
next
  fix i assume i: "i < cnt"
  show "interpolateAtTime buf cnt (ptT buf i) = ptV buf i"
  proof (cases "i = 0")
    case True
    then show ?thesis using i by (simp add: interpolateAtTime_def)
  next
    case i0: False
    then have nofirst: "\<not> ptT buf i \<le> ptT buf 0" using inc i by (simp add: not_le)
    show ?thesis
    proof (cases "i = cnt - 1")
      case True
      have "cnt \<noteq> 0" using i by simp
      then show ?thesis using True nofirst by (simp add: interpolateAtTime_def)
    next
      case False
      then have si: "Suc i < cnt" using i by simp
      have lt: "ptT buf i < ptT buf (Suc i)" using inc si by simp
      show ?thesis
        using interpolate_inner[OF inc si _ lt nofirst]
        by (simp add: Let_def hermite_at_0 split: prod.splits)
    qed
  qed
qed

lemma hermite_blend:
  fixes u a b :: real
  assumes u: "0 \<le> u" "u \<le> 1" and a: "0 \<le> a" "a \<le> 3" and b: "0 \<le> b" "b \<le> 3"
  defines "q \<equiv> a * (u * (1 - u)^2) + u^2 * (u + (3 - b) * (1 - u))"
  shows "0 \<le> q \<and> q \<le> 1"
proof
  have t1: "0 \<le> a * (u * (1 - u)^2)" using u a by simp
  have "0 \<le> u + (3 - b) * (1 - u)" using u b by simp
  then have t2: "0 \<le> u^2 * (u + (3 - b) * (1 - u))" by simp
  show "0 \<le> q" unfolding q_def using t1 t2 by linarith
  have e: "1 - q = (1 - u)^2 * ((1 - u) + (3 - a) * u) + b * (u^2 * (1 - u))"
    unfolding q_def by (simp add: power2_eq_square algebra_simps)
  have "0 \<le> (1 - u) + (3 - a) * u" using u a by simp
  then have s1: "0 \<le> (1 - u)^2 * ((1 - u) + (3 - a) * u)" by simp
  have s2: "0 \<le> b * (u^2 * (1 - u))" using u b by simp
  show "q \<le> 1" using e s1 s2 by linarith
qed

lemma hermite_as_blend:
  fixes u v0 v1 seg a b :: real
  assumes "seg \<noteq> 0"
  defines "delta \<equiv> (v1 - v0) / seg"
  shows "hermite u v0 v1 seg (a * delta) (b * delta)
       = v0 + (v1 - v0) * (a * (u * (1 - u)^2) + u^2 * (u + (3 - b) * (1 - u)))"
proof -
  have d: "seg * delta = v1 - v0" unfolding delta_def using assms(1) by simp
  have "hermite u v0 v1 seg (a * delta) (b * delta)
      = (2 * u^3 - 3 * u^2 + 1) * v0 + (u^3 - 2 * u^2 + u) * a * (seg * delta)
         + (- 2 * u^3 + 3 * u^2) * v1 + (u^3 - u^2) * b * (seg * delta)"
    by (simp add: hermite_def Let_def power2_eq_square power3_eq_cube algebra_simps)
  also have "\<dots> = v0 + (v1 - v0) * (a * (u * (1 - u)^2) + u^2 * (u + (3 - b) * (1 - u)))"
    unfolding d by (simp add: power2_eq_square power3_eq_cube algebra_simps)
  finally show ?thesis .
qed


text \<open>The tangents after the constraint are non-negative multiples, at most 3, of the slope.\<close>

lemma tangentLo_ratio:
  assumes "delta \<noteq> 0"
  shows "0 \<le> tangentLo lo deltaL delta / delta"
proof -
  have "deltaL * delta > 0 \<Longrightarrow> 0 \<le> (deltaL + delta) / 2 / delta"
  proof -
    assume p: "deltaL * delta > 0"
    have "(deltaL + delta) * delta = deltaL * delta + delta * delta" by (simp add: algebra_simps)
    moreover have "0 \<le> delta * delta" by simp
    ultimately have "0 \<le> (deltaL + delta) * delta" using p by linarith
    then have "0 \<le> (deltaL + delta) / delta"
      using assms by (simp add: zero_le_divide_iff zero_le_mult_iff)
    then show ?thesis by simp
  qed
  then show ?thesis using assms by (auto simp: tangentLo_def not_le)
qed

lemma tangentHi_ratio:
  assumes "delta \<noteq> 0"
  shows "0 \<le> tangentHi cnt hi delta deltaR / delta"
proof -
  have "delta * deltaR > 0 \<Longrightarrow> 0 \<le> (delta + deltaR) / 2 / delta"
  proof -
    assume p: "delta * deltaR > 0"
    have "(delta + deltaR) * delta = delta * deltaR + delta * delta" by (simp add: algebra_simps)
    moreover have "0 \<le> delta * delta" by simp
    ultimately have "0 \<le> (delta + deltaR) * delta" using p by linarith
    then have "0 \<le> (delta + deltaR) / delta"
      using assms by (simp add: zero_le_divide_iff zero_le_mult_iff)
    then show ?thesis by simp
  qed
  then show ?thesis using assms by (auto simp: tangentHi_def not_le)
qed

lemma scaled_le_3:
  fixes x y :: real
  assumes "0 \<le> x" "9 < x * x + y * y"
  shows "0 \<le> 3 / sqrt (x * x + y * y) * x \<and> 3 / sqrt (x * x + y * y) * x \<le> 3"
proof -
  let ?s2 = "x * x + y * y"
  have pos: "0 < sqrt ?s2" using assms(2) by simp
  have "x * x \<le> ?s2" by simp
  then have "sqrt (x * x) \<le> sqrt ?s2" by (rule real_sqrt_le_mono)
  then have "x \<le> sqrt ?s2" using assms(1) by simp
  then have "x / sqrt ?s2 \<le> 1" using pos by simp
  moreover have "0 \<le> x / sqrt ?s2" using assms(1) pos by simp
  moreover have "3 / sqrt ?s2 * x = 3 * (x / sqrt ?s2)" by simp
  ultimately show ?thesis by simp
qed

lemma sq_le_9:
  fixes x :: real
  assumes "x * x \<le> 9" "0 \<le> x"
  shows "x \<le> 3"
proof (rule ccontr)
  assume "\<not> x \<le> 3"
  then have "3 < x" by simp
  then have "3 * 3 < x * x" by (intro mult_strict_mono) simp_all
  then show False using assms by simp
qed

lemma fritschCarlson_bounded:
  assumes d: "delta \<noteq> 0" and m0: "0 \<le> m0 / delta" and m1: "0 \<le> m1 / delta"
  shows "\<exists>a b. fritschCarlson delta m0 m1 = (a * delta, b * delta)
            \<and> 0 \<le> a \<and> a \<le> 3 \<and> 0 \<le> b \<and> b \<le> 3"
proof -
  define al where "al = m0 / delta"
  define be where "be = m1 / delta"
  have al: "0 \<le> al" "al * delta = m0" using m0 d by (simp_all add: al_def)
  have be: "0 \<le> be" "be * delta = m1" using m1 d by (simp_all add: be_def)
  show ?thesis
  proof (cases "al * al + be * be > 9")
    case True
    define s where "s = 3 / sqrt (al * al + be * be)"
    have fc: "fritschCarlson delta m0 m1 = (s * al * delta, s * be * delta)"
      using d True by (simp add: fritschCarlson_def Let_def al_def be_def s_def)
    have "0 \<le> s * al \<and> s * al \<le> 3" unfolding s_def using scaled_le_3[OF al(1) True] .
    moreover have "9 < be * be + al * al" using True by (simp add: add.commute)
    then have "0 \<le> 3 / sqrt (be * be + al * al) * be \<and> 3 / sqrt (be * be + al * al) * be \<le> 3"
      using scaled_le_3[OF be(1)] by blast
    then have "0 \<le> s * be \<and> s * be \<le> 3" unfolding s_def by (simp add: add.commute)
    ultimately show ?thesis using fc by blast
  next
    case False
    then have fc: "fritschCarlson delta m0 m1 = (al * delta, be * delta)"
      using d al be by (simp add: fritschCarlson_def Let_def al_def be_def)
    have sq: "0 \<le> al * al" "0 \<le> be * be" by simp_all
    have "al * al \<le> 9" "be * be \<le> 9" using False sq by linarith+
    then have "al \<le> 3" "be \<le> 3"
      using al(1) be(1) sq_le_9 by blast+
    then show ?thesis using fc al(1) be(1) by blast
  qed
qed


lemma segment_value_between:
  fixes t0 t1 v0 v1 t :: real
  assumes seg: "t0 < t1" and t: "t0 \<le> t" "t \<le> t1"
  defines "delta \<equiv> (v1 - v0) / (t1 - t0)"
  assumes fc: "fritschCarlson delta (tangentLo lo dL delta) (tangentHi cnt hi delta dR) = (m0, m1)"
  shows "min v0 v1 \<le> hermite ((t - t0) / (t1 - t0)) v0 v1 (t1 - t0) m0 m1
       \<and> hermite ((t - t0) / (t1 - t0)) v0 v1 (t1 - t0) m0 m1 \<le> max v0 v1"
proof -
  define u where "u = (t - t0) / (t1 - t0)"
  have u: "0 \<le> u" "u \<le> 1" using seg t by (simp_all add: u_def)
  have sn: "t1 - t0 \<noteq> 0" using seg by simp
  show ?thesis
  proof (cases "delta = 0")
    case True
    then have "v1 = v0" using sn by (simp add: delta_def)
    moreover have "m0 = 0" "m1 = 0" using fc True by (simp_all add: fritschCarlson_def)
    ultimately have "hermite u v0 v1 (t1 - t0) m0 m1 = v0"
      by (simp add: hermite_def Let_def algebra_simps)
    then show ?thesis using \<open>v1 = v0\<close> by (simp add: u_def)
  next
    case False
    obtain a b where ab: "fritschCarlson delta (tangentLo lo dL delta) (tangentHi cnt hi delta dR)
          = (a * delta, b * delta)" "0 \<le> a" "a \<le> 3" "0 \<le> b" "b \<le> 3"
      using fritschCarlson_bounded[OF False tangentLo_ratio[OF False] tangentHi_ratio[OF False]]
      by blast
    have m: "m0 = a * delta" "m1 = b * delta" using fc ab(1) by simp_all
    define q where "q = a * (u * (1 - u)^2) + u^2 * (u + (3 - b) * (1 - u))"
    have q: "0 \<le> q \<and> q \<le> 1" unfolding q_def using hermite_blend[OF u ab(2-5)] .
    have "hermite u v0 v1 (t1 - t0) m0 m1 = v0 + (v1 - v0) * q"
      unfolding m q_def delta_def using hermite_as_blend[OF sn] .
    then show ?thesis using blend_between[of q v0 v1] q by (simp add: u_def)
  qed
qed

lemma interpolate_no_overshoot_aux:
  assumes inc: "\<forall>i j. i < j \<and> j < cnt \<longrightarrow> ptT buf i < ptT buf j"
    and i: "Suc i < cnt" and t: "ptT buf i \<le> t" "t < ptT buf (Suc i)"
  shows "min (ptV buf i) (ptV buf (Suc i)) \<le> interpolateAtTime buf cnt t
       \<and> interpolateAtTime buf cnt t \<le> max (ptV buf i) (ptV buf (Suc i))"
proof (cases "t \<le> ptT buf 0")
  case True
  have "i = 0"
  proof (rule ccontr)
    assume "i \<noteq> 0"
    then have "ptT buf 0 < ptT buf i" using inc i by simp
    then show False using True t by linarith
  qed
  moreover have "interpolateAtTime buf cnt t = ptV buf 0"
    using True i by (simp add: interpolateAtTime_def)
  ultimately show ?thesis by simp
next
  case False
  obtain m0 m1 where fc: "fritschCarlson ((ptV buf (Suc i) - ptV buf i) / (ptT buf (Suc i) - ptT buf i))
        (tangentLo i (leftSecant buf i ((ptV buf (Suc i) - ptV buf i) / (ptT buf (Suc i) - ptT buf i)))
            ((ptV buf (Suc i) - ptV buf i) / (ptT buf (Suc i) - ptT buf i)))
        (tangentHi cnt (Suc i) ((ptV buf (Suc i) - ptV buf i) / (ptT buf (Suc i) - ptT buf i))
            (rightSecant buf cnt (Suc i) ((ptV buf (Suc i) - ptV buf i) / (ptT buf (Suc i) - ptT buf i))))
        = (m0, m1)" by fastforce
  have "interpolateAtTime buf cnt t =
      hermite ((t - ptT buf i) / (ptT buf (Suc i) - ptT buf i)) (ptV buf i) (ptV buf (Suc i))
           (ptT buf (Suc i) - ptT buf i) m0 m1"
    using interpolate_inner[OF inc i t False] by (simp add: Let_def fc)
  moreover have "ptT buf i < ptT buf (Suc i)" using t by linarith
  ultimately show ?thesis
    using segment_value_between[OF _ t(1) less_imp_le[OF t(2)] fc] by simp
qed

text \<open>
  Claim C5. On a packed buffer with strictly increasing times, evaluating at the time of
  any sample returns that sample's value exactly; a time at or before the first sample
  returns the first value and a time at or after the last sample returns the last value.
\<close>

theorem interpolateAtTime_knots:
  assumes "cnt * 2 \<le> length buf"
    and "\<forall>i j. i < j \<and> j < cnt \<longrightarrow> ptT buf i < ptT buf j"
  shows "(\<forall>i < cnt. interpolateAtTime buf cnt (ptT buf i) = ptV buf i)
       \<and> (0 < cnt \<longrightarrow> (\<forall>t \<le> ptT buf 0. interpolateAtTime buf cnt t = ptV buf 0))
       \<and> (0 < cnt \<longrightarrow> (\<forall>t \<ge> ptT buf (cnt - 1). interpolateAtTime buf cnt t = ptV buf (cnt - 1)))"
  using assms by (rule interpolate_knots_aux)

lemma sample_times_increasing:
  "\<forall>i j. i < j \<and> j < 4 \<longrightarrow> ptT [0, 0, 1, 1, 2, 0, 3, 5] i < ptT [0, 0, 1, 1, 2, 0, 3, 5] j"
proof (intro allI impI)
  fix i j :: nat
  assume h: "i < j \<and> j < 4"
  then have "j = 1 \<or> j = 2 \<or> j = 3" by auto
  moreover have "i = 0 \<or> i = 1 \<or> i = 2" using h by auto
  ultimately show "ptT [0, 0, 1, 1, 2, 0, 3, 5] i < ptT [0, 0, 1, 1, 2, 0, 3, 5] j"
    using h by (auto simp: ptT_def)
qed

theorem interpolateAtTime_knots_witness:
  "interpolateAtTime [0, 0, 1, 1, 2, 0, 3, 5] 4 (ptT [0, 0, 1, 1, 2, 0, 3, 5] 2)
      = ptV [0, 0, 1, 1, 2, 0, 3, 5] 2
   \<and> interpolateAtTime [0, 0, 1, 1, 2, 0, 3, 5] 4 (- 1) = 0
   \<and> interpolateAtTime [0, 0, 1, 1, 2, 0, 3, 5] 4 7 = 5"
proof -
  have len: "4 * 2 \<le> length [0, 0, 1, 1, 2, 0, 3, 5 :: real]" by simp
  note K = interpolateAtTime_knots[OF len sample_times_increasing]
  have a: "interpolateAtTime [0, 0, 1, 1, 2, 0, 3, 5] 4 (ptT [0, 0, 1, 1, 2, 0, 3, 5] 2)
      = ptV [0, 0, 1, 1, 2, 0, 3, 5] 2" using K by simp
  have "(- 1 :: real) \<le> ptT [0, 0, 1, 1, 2, 0, 3, 5] 0" by (simp add: ptT_def)
  then have "interpolateAtTime [0, 0, 1, 1, 2, 0, 3, 5] 4 (- 1) = ptV [0, 0, 1, 1, 2, 0, 3, 5] 0"
    using K by simp
  then have b: "interpolateAtTime [0, 0, 1, 1, 2, 0, 3, 5] 4 (- 1) = 0" by (simp add: ptV_def)
  have "(7 :: real) \<ge> ptT [0, 0, 1, 1, 2, 0, 3, 5] (4 - 1)" by (simp add: ptT_def)
  then have "interpolateAtTime [0, 0, 1, 1, 2, 0, 3, 5] 4 7 = ptV [0, 0, 1, 1, 2, 0, 3, 5] (4 - 1)"
    using K by simp
  then have c: "interpolateAtTime [0, 0, 1, 1, 2, 0, 3, 5] 4 7 = 5" by (simp add: ptV_def)
  show ?thesis using a b c by blast
qed

text \<open>
  Claim C4. On a packed buffer with strictly increasing times, for a time between two
  adjacent samples \<open>i\<close> and \<open>i + 1\<close> the evaluated value lies between the two sample values:
  the curve does not overshoot its neighbouring points (over the reals exactly, so within
  every epsilon).
\<close>

theorem interpolateAtTime_no_overshoot:
  assumes len: "cnt * 2 \<le> length buf"
    and inc: "\<forall>i j. i < j \<and> j < cnt \<longrightarrow> ptT buf i < ptT buf j"
    and i: "i + 1 < cnt" and t: "ptT buf i \<le> t" "t \<le> ptT buf (i + 1)"
  shows "min (ptV buf i) (ptV buf (i + 1)) \<le> interpolateAtTime buf cnt t
       \<and> interpolateAtTime buf cnt t \<le> max (ptV buf i) (ptV buf (i + 1))"
proof (cases "t = ptT buf (i + 1)")
  case True
  have "interpolateAtTime buf cnt (ptT buf (i + 1)) = ptV buf (i + 1)"
    using interpolate_knots_aux[OF len inc] i by blast
  then show ?thesis using True by simp
next
  case False
  then have "t < ptT buf (Suc i)" using t by simp
  then show ?thesis
    using interpolate_no_overshoot_aux[OF inc _ t(1)] i by simp
qed

theorem interpolateAtTime_no_overshoot_witness:
  "min (ptV [0, 0, 1, 1, 2, 0, 3, 5] 2) (ptV [0, 0, 1, 1, 2, 0, 3, 5] (2 + 1))
      \<le> interpolateAtTime [0, 0, 1, 1, 2, 0, 3, 5] 4 (5/2)
   \<and> interpolateAtTime [0, 0, 1, 1, 2, 0, 3, 5] 4 (5/2)
      \<le> max (ptV [0, 0, 1, 1, 2, 0, 3, 5] 2) (ptV [0, 0, 1, 1, 2, 0, 3, 5] (2 + 1))"
proof -
  have len: "4 * 2 \<le> length [0, 0, 1, 1, 2, 0, 3, 5 :: real]" by simp
  have i: "(2::nat) + 1 < 4" by simp
  have t: "ptT [0, 0, 1, 1, 2, 0, 3, 5] 2 \<le> (5/2 :: real)"
      "(5/2 :: real) \<le> ptT [0, 0, 1, 1, 2, 0, 3, 5] (2 + 1)"
    by (simp_all add: ptT_def)
  show ?thesis
    using interpolateAtTime_no_overshoot[OF len sample_times_increasing i t] .
qed

section \<open>Properties of ingestion\<close>

lemma cleanPoints_set:
  "x \<in> set (cleanPoints d) \<longleftrightarrow> (\<exists>p \<in> set d. pt_time p = Finite (fst x) \<and> pt_value p = Finite (snd x))"
proof (induction d)
  case Nil
  then show ?case by simp
next
  case (Cons p ps)
  show ?case
  proof (cases "pt_time p")
    case (Finite t)
    show ?thesis
    proof (cases "pt_value p")
      case v: (Finite v)
      show ?thesis using Cons Finite v by (cases x) auto
    qed (use Cons Finite in auto)
  qed (use Cons in auto)
qed

lemma cleanPoints_length:
  "length (cleanPoints d) = length (filter (\<lambda>p. isFinite (pt_time p) \<and> isFinite (pt_value p)) d)"
proof (induction d)
  case Nil
  then show ?case by simp
next
  case (Cons p ps)
  then show ?case by (cases "pt_time p"; cases "pt_value p") simp_all
qed

lemma packBuf_length: "length (packBuf ps) = 2 * length ps"
  by (induction ps rule: packBuf.induct) simp_all

lemma packBuf_nth:
  "i < length ps \<Longrightarrow> ptT (packBuf ps) i = fst (ps ! i) \<and> ptV (packBuf ps) i = snd (ps ! i)"
proof (induction ps arbitrary: i rule: packBuf.induct)
  case 1
  then show ?case by simp
next
  case (2 t v ps)
  show ?case
  proof (cases i)
    case 0
    then show ?thesis by (simp add: ptT_def ptV_def)
  next
    case (Suc j)
    then have "j < length ps" using "2.prems" by simp
    then show ?thesis using "2.IH"[of j] Suc by (simp add: ptT_def ptV_def)
  qed
qed

lemma sorted_split_le:
  assumes "sorted (map f xs)"
  shows "\<forall>x \<in> set (take n xs). \<forall>y \<in> set (drop n xs). f x \<le> f y"
proof -
  have "sorted (map f (take n xs) @ map f (drop n xs))"
    using assms by (simp flip: map_append)
  then show ?thesis by (auto simp: sorted_append)
qed

lemma cappedPoints_char:
  defines "n \<equiv> \<lambda>d. length (cleanPoints d) - 1200"
  shows "cappedPoints d = drop (n d) (sort_key fst (cleanPoints d))"
  by (simp add: cappedPoints_def n_def Let_def)

text \<open>
  Claim C8. For every input array, \<open>packPoints\<close> returns a packed buffer of \<open>count\<close> pairs:
  every retained pair is the time and value of an input sample whose time and value are
  both finite, the times are in non-decreasing order, \<open>count\<close> is the number of finite
  samples capped at 1200, and the samples left out are the oldest ones (each is no newer
  than every retained one). When no sample is finite the count is 0 and the frame
  callback, given that buffer, produces its empty state and leaves the engine state as
  it was. The model has no failing branch: the function is total.
\<close>

theorem packPoints_finite_sorted_capped:
  fixes d :: "LivelinePoint list"
  defines "P \<equiv> packPoints d"
  shows "\<exists>kept older.
      packed_buf P = packBuf kept \<and> packed_count P = length kept
    \<and> length (packed_buf P) = 2 * packed_count P
    \<and> (\<forall>i < packed_count P. ptT (packed_buf P) i = fst (kept ! i)
                             \<and> ptV (packed_buf P) i = snd (kept ! i))
    \<and> (\<forall>x \<in> set kept. \<exists>p \<in> set d. pt_time p = Finite (fst x) \<and> pt_value p = Finite (snd x))
    \<and> sorted (map fst kept)
    \<and> (\<forall>i j. i \<le> j \<and> j < packed_count P \<longrightarrow> ptT (packed_buf P) i \<le> ptT (packed_buf P) j)
    \<and> packed_count P
         = min 1200 (length (filter (\<lambda>p. isFinite (pt_time p) \<and> isFinite (pt_value p)) d))
    \<and> mset older + mset kept = mset (cleanPoints d)
    \<and> (\<forall>x \<in> set older. \<forall>y \<in> set kept. fst x \<le> fst y)
    \<and> ((\<forall>p \<in> set d. \<not> (isFinite (pt_time p) \<and> isFinite (pt_value p))) \<longrightarrow>
          packed_count P = 0
          \<and> (0 < width inp \<and> 0 < height inp \<longrightarrow>
                frameCallback s (inp\<lparr> pts := packedWithValue P v \<rparr>)
                  = (CrosshairOpacity 0 # map Rewind allPaths, s)))"
proof -
  define srt where "srt = sort_key fst (cleanPoints d)"
  define n where "n = length (cleanPoints d) - 1200"
  define kept where "kept = drop n srt"
  define older where "older = take n srt"
  have cap: "cappedPoints d = kept"
    by (simp add: cappedPoints_def kept_def srt_def n_def Let_def)
  have P: "packed_buf P = packBuf kept" "packed_count P = length kept"
    by (simp_all add: P_def packPoints_def cap Let_def)
  have len: "length (packed_buf P) = 2 * packed_count P"
    by (simp add: P packBuf_length)
  have nth: "\<forall>i < packed_count P. ptT (packed_buf P) i = fst (kept ! i)
                             \<and> ptV (packed_buf P) i = snd (kept ! i)"
    using packBuf_nth[of _ kept] by (simp add: P)
  have "set kept \<subseteq> set (cleanPoints d)"
    using set_drop_subset[of n srt] by (simp add: kept_def srt_def)
  then have fin: "\<forall>x \<in> set kept. \<exists>p \<in> set d. pt_time p = Finite (fst x) \<and> pt_value p = Finite (snd x)"
    using cleanPoints_set by blast
  have ss: "sorted (map fst srt)" by (simp add: srt_def)
  then have sk: "sorted (map fst kept)"
    unfolding kept_def by (simp add: drop_map[symmetric] sorted_wrt_drop)
  have bufsorted: "\<forall>i j. i \<le> j \<and> j < packed_count P \<longrightarrow> ptT (packed_buf P) i \<le> ptT (packed_buf P) j"
  proof (intro allI impI)
    fix i j assume ij: "i \<le> j \<and> j < packed_count P"
    then have "map fst kept ! i \<le> map fst kept ! j"
      using sk P(2) by (intro sorted_nth_mono) simp_all
    then show "ptT (packed_buf P) i \<le> ptT (packed_buf P) j"
      using nth ij P(2) by simp
  qed
  have cnt: "packed_count P
         = min 1200 (length (filter (\<lambda>p. isFinite (pt_time p) \<and> isFinite (pt_value p)) d))"
    by (simp add: P kept_def srt_def n_def cleanPoints_length[symmetric])
  have "mset older + mset kept = mset srt"
    unfolding older_def kept_def by (simp flip: mset_append)
  then have ms: "mset older + mset kept = mset (cleanPoints d)"
    by (simp add: srt_def)
  have newest: "\<forall>x \<in> set older. \<forall>y \<in> set kept. fst x \<le> fst y"
    unfolding older_def kept_def using sorted_split_le[OF ss] .
  have empty: "(\<forall>p \<in> set d. \<not> (isFinite (pt_time p) \<and> isFinite (pt_value p))) \<longrightarrow>
          packed_count P = 0
          \<and> (0 < width inp \<and> 0 < height inp \<longrightarrow>
                frameCallback s (inp\<lparr> pts := packedWithValue P v \<rparr>)
                  = (CrosshairOpacity 0 # map Rewind allPaths, s))"
  proof
    assume a: "\<forall>p \<in> set d. \<not> (isFinite (pt_time p) \<and> isFinite (pt_value p))"
    then have "filter (\<lambda>p. isFinite (pt_time p) \<and> isFinite (pt_value p)) d = []"
      by (simp add: filter_empty_conv)
    then have c0: "packed_count P = 0" using cnt by simp
    then have "kept = []" using P(2) by simp
    then have "packedWithValue P v = [v]" by (simp add: packedWithValue_def P)
    then have "ptsCountOf (pts (inp\<lparr> pts := packedWithValue P v \<rparr>)) = 0"
      by (simp add: ptsCountOf_def)
    then have "0 < width inp \<and> 0 < height inp \<longrightarrow>
                frameCallback s (inp\<lparr> pts := packedWithValue P v \<rparr>)
                  = (CrosshairOpacity 0 # map Rewind allPaths, s)"
      by (simp add: frameCallback_def)
    then show "packed_count P = 0
          \<and> (0 < width inp \<and> 0 < height inp \<longrightarrow>
                frameCallback s (inp\<lparr> pts := packedWithValue P v \<rparr>)
                  = (CrosshairOpacity 0 # map Rewind allPaths, s))"
      using c0 by simp
  qed
  show ?thesis
    using P len nth fin sk bufsorted cnt ms newest empty by blast
qed

theorem packPoints_finite_sorted_capped_witness:
  "packPoints [\<lparr>pt_time = Finite 2, pt_value = Finite 5\<rparr>, \<lparr>pt_time = NaN, pt_value = Finite 5\<rparr>,
               \<lparr>pt_time = Finite 1, pt_value = Finite 7\<rparr>, \<lparr>pt_time = Finite 1, pt_value = PosInfinity\<rparr>]
     = \<lparr> packed_buf = [1, 7, 2, 5], packed_count = 2 \<rparr>
   \<and> packed_count (packPoints [\<lparr>pt_time = NaN, pt_value = Finite 5\<rparr>,
                                 \<lparr>pt_time = Finite 1, pt_value = NegInfinity\<rparr>]) = 0
   \<and> frameCallback (initialState 100 60)
        (sampleFrame\<lparr> pts := packedWithValue
           (packPoints [\<lparr>pt_time = NaN, pt_value = Finite 5\<rparr>,
                        \<lparr>pt_time = Finite 1, pt_value = NegInfinity\<rparr>]) 100 \<rparr>)
       = (CrosshairOpacity 0 # map Rewind allPaths, initialState 100 60)"
proof -
  let ?d = "[\<lparr>pt_time = NaN, pt_value = Finite 5\<rparr>, \<lparr>pt_time = Finite 1, pt_value = NegInfinity\<rparr>]"
  have a: "packPoints [\<lparr>pt_time = Finite 2, pt_value = Finite 5\<rparr>, \<lparr>pt_time = NaN, pt_value = Finite 5\<rparr>,
               \<lparr>pt_time = Finite 1, pt_value = Finite 7\<rparr>, \<lparr>pt_time = Finite 1, pt_value = PosInfinity\<rparr>]
     = \<lparr> packed_buf = [1, 7, 2, 5], packed_count = 2 \<rparr>"
    by (simp add: packPoints_def cappedPoints_def Let_def)
  have nf: "\<forall>p \<in> set ?d. \<not> (isFinite (pt_time p) \<and> isFinite (pt_value p))" by simp
  have wh: "0 < width sampleFrame \<and> 0 < height sampleFrame" by (simp add: sampleFrame_def)
  obtain kept older where
    e: "(\<forall>p \<in> set ?d. \<not> (isFinite (pt_time p) \<and> isFinite (pt_value p))) \<longrightarrow>
          packed_count (packPoints ?d) = 0
          \<and> (0 < width sampleFrame \<and> 0 < height sampleFrame \<longrightarrow>
                frameCallback (initialState 100 60)
                   (sampleFrame\<lparr> pts := packedWithValue (packPoints ?d) 100 \<rparr>)
                  = (CrosshairOpacity 0 # map Rewind allPaths, initialState 100 60))"
    using packPoints_finite_sorted_capped[of ?d sampleFrame "initialState 100 60" 100]
    by (elim exE conjE)
  show ?thesis using a e nf wh by blast
qed

section \<open>Properties of the frame callback\<close>

lemma startWidthMorph_keeps:
  "displayValue (startWidthMorph s inp) = displayValue s
   \<and> rangeMin (startWidthMorph s inp) = rangeMin s
   \<and> rangeMax (startWidthMorph s inp) = rangeMax s
   \<and> rangeInited (startWidthMorph s inp) = rangeInited s
   \<and> multiSeriesRangeInited (startWidthMorph s inp) = multiSeriesRangeInited s"
  by (simp add: startWidthMorph_def)

lemma stepWidthMorph_keeps:
  assumes "stepWidthMorph s inp = (morphT, w, s1)"
  shows "displayValue s1 = displayValue s \<and> rangeMin s1 = rangeMin s \<and> rangeMax s1 = rangeMax s
       \<and> rangeInited s1 = rangeInited s \<and> multiSeriesRangeInited s1 = multiSeriesRangeInited s"
proof (cases "candleWidthMorphStart s > 0")
  case False
  then show ?thesis using assms by (simp add: stepWidthMorph_def)
next
  case True
  show ?thesis
  proof (cases "min ((nowRawMs inp - candleWidthMorphStart s) / CANDLE_WIDTH_TRANS_MS) 1 \<ge> 1")
    case t: True
    then have "s1 = s\<lparr> candleWidthMorphStart := 0, candleWidthMorphT := - 1 \<rparr>"
      using assms True by (auto simp: stepWidthMorph_def Let_def)
    then show ?thesis by simp
  next
    case f: False
    then have "\<exists>m. s1 = s\<lparr> candleWidthMorphT := m \<rparr>"
      using assms True by (auto simp: stepWidthMorph_def Let_def)
    then show ?thesis by auto
  qed
qed

lemma advanceCandleRange_keeps:
  "displayValue (advanceCandleRange s r v) = displayValue s
   \<and> rangeMin (advanceCandleRange s r v) = rangeMin s
   \<and> rangeMax (advanceCandleRange s r v) = rangeMax s
   \<and> rangeInited (advanceCandleRange s r v) = rangeInited s
   \<and> multiSeriesRangeInited (advanceCandleRange s r v) = multiSeriesRangeInited s"
  by (cases v) (simp_all add: advanceCandleRange_def Let_def)

lemma displayedCandleRange_keeps:
  assumes "displayedCandleRange s morphT tr = (a, b, s1)"
  shows "displayValue s1 = displayValue s \<and> rangeMin s1 = rangeMin s \<and> rangeMax s1 = rangeMax s
       \<and> rangeInited s1 = rangeInited s \<and> multiSeriesRangeInited s1 = multiSeriesRangeInited s"
proof (cases "morphT \<ge> 0")
  case False
  then show ?thesis using assms by (simp add: displayedCandleRange_def)
next
  case True
  then have "s1 = (case tr of None \<Rightarrow> s
                   | Some t \<Rightarrow> s\<lparr> candleWidthNewRangeMin := rmin t,
                                     candleWidthNewRangeMax := rmax t \<rparr>)"
    using assms by (simp add: displayedCandleRange_def Let_def)
  then show ?thesis by (cases tr) simp_all
qed


lemma candlePipeline_effects:
  assumes "candlePipeline s inp mn sp = (ce, s1)"
  shows "\<forall>e \<in> set ce. (\<exists>a b. e = CandlePaths a b) \<or> (\<exists>a b. e = OldCandlePaths a b)
            \<or> (\<exists>a b. e = CandleCrosshair a b)"
proof (cases "isCandleNow inp")
  case False
  then show ?thesis using assms by (simp add: candlePipeline_def)
next
  case True
  obtain morphT w s2 where m: "stepWidthMorph (startWidthMorph s inp) inp = (morphT, w, s2)"
    by (metis prod_cases3)
  obtain a b s4 where d: "displayedCandleRange
        (advanceCandleRange s2 (ratio inp) (visibleCandleRange inp w)) morphT (targetCandleRange inp)
        = (a, b, s4)" by (metis prod_cases3)
  show ?thesis
    using assms True by (auto simp: candlePipeline_def Let_def m d split: if_splits)
qed

lemma candlePipeline_keeps:
  assumes "candlePipeline s inp mn sp = (ce, s1)"
  shows "displayValue s1 = displayValue s \<and> rangeMin s1 = rangeMin s \<and> rangeMax s1 = rangeMax s
       \<and> rangeInited s1 = rangeInited s \<and> multiSeriesRangeInited s1 = multiSeriesRangeInited s"
proof (cases "isCandleNow inp")
  case False
  then show ?thesis using assms by (auto simp: candlePipeline_def split: if_splits)
next
  case True
  obtain morphT w s2 where m: "stepWidthMorph (startWidthMorph s inp) inp = (morphT, w, s2)"
    by (metis prod_cases3)
  obtain a b s4 where d: "displayedCandleRange
        (advanceCandleRange s2 (ratio inp) (visibleCandleRange inp w)) morphT (targetCandleRange inp)
        = (a, b, s4)" by (metis prod_cases3)
  have "s1 = s4" using assms True by (simp add: candlePipeline_def Let_def m d)
  then show ?thesis
    using displayedCandleRange_keeps[OF d] advanceCandleRange_keeps[of s2 "ratio inp" "visibleCandleRange inp w"]
      stepWidthMorph_keeps[OF m] startWidthMorph_keeps[of s inp]
    by simp
qed











text \<open>The rendered part of a tick and the committed values, separately.\<close>

lemma renderTick_split:
  assumes "candlePipeline (markInited s inp) inp (rangeMin s)
              (max (1/1000000) (rangeMax s - rangeMin s)) = (ce, s1)"
  shows "renderTick s inp =
     ((renderBeforeCandles inp (displayValue s) (rangeMin s) (rangeMax s) @ ce
        @ renderSeries s inp (advancedSlotsOf s inp) (rangeMin s) (rangeMax s)
        @ renderLine inp (displayValue s) (rangeMin s) (rangeMax s))
      @ [Commit DisplayValueSV (nextDisplayOf s inp),
         Commit RangeMinSV (fst (nextRangeOf s inp)),
         Commit RangeMaxSV (snd (nextRangeOf s inp))],
      s1\<lparr> seriesSlots := advancedSlotsOf s inp, displayValue := nextDisplayOf s inp,
          rangeMin := fst (nextRangeOf s inp), rangeMax := snd (nextRangeOf s inp) \<rparr>)"
  unfolding renderTick_def Let_def assms commit_def
  by (simp add: split_beta)







text \<open>
  The frames of the multi-series chart and of the candle chart, evaluated. The two
  multi-series frames differ in the base speed alone.
\<close>

lemma lerpNumber_unit:
  "speed < 1 \<Longrightarrow> lerpNumber cur to speed 1 = cur + (to - cur) * clamp speed 0 1"
  by (simp add: lerpNumber_def alphaLerp_def jsPow_def)

lemma upto_0_1: "[0..1::int] = [0, 1]" by (simp add: upto.simps)

lemma multi_speed:
  "speedOf multiState multiFrame = 8/100"
  "speedOf multiState (multiFrame\<lparr> lerpSpeed := 1/2 \<rparr>) = 1/2"
  by (simp_all add: speedOf_def multiState_def multiFrame_def initialState_def
       targetValueOf_def sampleFrame_def liveValueOf_def ptsCountOf_def
       adaptiveSpeed_def gapRatio_def currentRange_def clamp_def)


lemma fade_empty:
  "fadeSlot \<lparr> slot_active = False, slot_displayValue = 0, slot_alpha = 0 \<rparr> 1
     = \<lparr> slot_active = False, slot_displayValue = 0, slot_alpha = 0 \<rparr>"
  by (simp add: fadeSlot_def lerpNumber_unit SERIES_TOGGLE_SPEED_def clamp_def)

lemma replicate7: "replicate 7 x = [x, x, x, x, x, x, x]"
  by (simp add: eval_nat_numeral)

lemma multi_slots:
  "advancedSlotsOf multiState multiFrame =
     \<lparr> slot_active = True, slot_displayValue = 12504/125, slot_alpha = 1 \<rparr>
       # replicate 7 \<lparr> slot_active = False, slot_displayValue = 0, slot_alpha = 0 \<rparr>"
  "advancedSlotsOf multiState (multiFrame\<lparr> lerpSpeed := 1/2 \<rparr>) =
     \<lparr> slot_active = True, slot_displayValue = 501/5, slot_alpha = 1 \<rparr>
       # replicate 7 \<lparr> slot_active = False, slot_displayValue = 0, slot_alpha = 0 \<rparr>"
  unfolding advancedSlotsOf_def multi_speed
  by (simp_all add: multiState_def multiFrame_def initialState_def sampleFrame_def
        MAX_SERIES_def replicate7 fade_empty advanceSlot_def seriesLiveValue_def
        lerpNumber_unit SERIES_TOGGLE_SPEED_def clamp_def Let_def)

lemma multi_relive: "multiFrame\<lparr> lerpSpeed := 8/100 \<rparr> = multiFrame"
  by (simp add: multiFrame_def sampleFrame_def)

lemma multi_series:
  "take MAX_SERIES (series (multiFrame\<lparr> lerpSpeed := l \<rparr>)) =
     [\<lparr> series_buf = [0, 100, 1, 101, 502/5], series_count = 2,
        series_value = 502/5, series_hidden = False, series_first = 0, series_last = 1 \<rparr>]"
  by (simp add: multiFrame_def MAX_SERIES_def)

lemma multi_target:
  "multiTargetOf (\<lparr> slot_active = True, slot_displayValue = 12504/125, slot_alpha = 1 \<rparr> # rest)
     [\<lparr> series_buf = [0, 100, 1, 101, 502/5], series_count = 2,
        series_value = 502/5, series_hidden = False, series_first = 0, series_last = 1 \<rparr>] False
     = \<lparr> rmin = 2497/25, rmax = 2528/25 \<rparr>"
  "multiTargetOf (\<lparr> slot_active = True, slot_displayValue = 501/5, slot_alpha = 1 \<rparr> # rest)
     [\<lparr> series_buf = [0, 100, 1, 101, 502/5], series_count = 2,
        series_value = 502/5, series_hidden = False, series_first = 0, series_last = 1 \<rparr>] False
     = \<lparr> rmin = 2497/25, rmax = 2528/25 \<rparr>"
  by (simp_all add: multiTargetOf_def scanSeries_def scanStep_def clampIndex_def upto_0_1
        ptV_at_def ptV_def Let_def)

lemma multi_flags:
  "isMultiNow (multiFrame\<lparr> lerpSpeed := l \<rparr>)" "exaggerate (multiFrame\<lparr> lerpSpeed := l \<rparr>) = False"
  "multiSeriesRangeInited multiState" "rangeMin multiState = 199/2" "rangeMax multiState = 201/2"
  "displayValue multiState = 100"
  by (simp_all add: multiFrame_def sampleFrame_def multiState_def initialState_def)





















section \<open>The range that a tick commits\<close>

lemma frame_commits_range:
  assumes "0 < width inp" "0 < height inp" "0 < ptsCountOf (pts inp)"
  shows "rangeMin (snd (frameCallback s inp)) = fst (nextRangeOf s inp)
       \<and> rangeMax (snd (frameCallback s inp)) = snd (nextRangeOf s inp)"
proof -
  obtain ce s1 where cp: "candlePipeline (markInited s inp) inp (rangeMin s)
              (max (1/1000000) (rangeMax s - rangeMin s)) = (ce, s1)"
    by fastforce
  have "frameCallback s inp = renderTick s inp"
    using assms by (simp add: frameCallback_def)
  then show ?thesis by (simp add: renderTick_split[OF cp])
qed

lemma alphaOf_law:
  "alphaOf s inp = frameAlpha (speedOf s inp) (ratio inp * (1 - pauseProgress inp))"
  by (simp add: alphaOf_def speedOf_def Let_def)

text \<open>
  Claim C6 (as amended). On a tick that renders after the range was initialised, each
  bound of the committed range obeys the asymmetry: a target minimum below the current
  minimum by more than half the current span (floored at \<open>1e-6\<close>) is adopted on that tick,
  and likewise a target maximum above the current maximum. Otherwise the bound moves to
  \<open>cur + (target - cur) * alpha\<close> with \<open>alpha = 1 - (1 - adaptiveSpeed)^pausedRatio\<close>; on the
  single-series path it is then set to the target when what remains is below the
  half-pixel threshold \<open>0.5 * currentRange / innerHeight\<close>. In multi-series mode the target
  is the range of the visible series and there is no half-pixel snap.
\<close>

theorem range_advance_snap_or_lerp:
  fixes s :: EngineState and inp :: FrameInput
  defines "half \<equiv> currentRange (rangeMin s) (rangeMax s) * (1/2)"
  defines "a \<equiv> frameAlpha (speedOf s inp) (ratio inp * (1 - pauseProgress inp))"
  defines "px \<equiv> rangeSnapThreshold (currentRange (rangeMin s) (rangeMax s)) (innerHeightOf inp)"
  defines "tmin \<equiv> rmin (rangeOutOf s inp)" and "tmax \<equiv> rmax (rangeOutOf s inp)"
  defines "mmin \<equiv> rmin (multiTargetOf (advancedSlotsOf s inp) (take MAX_SERIES (series inp))
                            (exaggerate inp))"
  defines "mmax \<equiv> rmax (multiTargetOf (advancedSlotsOf s inp) (take MAX_SERIES (series inp))
                            (exaggerate inp))"
  assumes w: "0 < width inp" and h: "0 < height inp" and n: "0 < ptsCountOf (pts inp)"
  shows "(\<not> isMultiNow inp \<and> rangeInited s \<longrightarrow>
            rangeMin (snd (frameCallback s inp))
              = (if tmin < rangeMin s \<and> rangeMin s - tmin > half then tmin
                 else snapWithin (rangeMin s + (tmin - rangeMin s) * a) tmin px)
          \<and> rangeMax (snd (frameCallback s inp))
              = (if tmax > rangeMax s \<and> tmax - rangeMax s > half then tmax
                 else snapWithin (rangeMax s + (tmax - rangeMax s) * a) tmax px))
       \<and> (isMultiNow inp \<and> multiSeriesRangeInited s \<longrightarrow>
            rangeMin (snd (frameCallback s inp))
              = (if mmin < rangeMin s \<and> rangeMin s - mmin > half then mmin
                 else rangeMin s + (mmin - rangeMin s) * a)
          \<and> rangeMax (snd (frameCallback s inp))
              = (if mmax > rangeMax s \<and> mmax - rangeMax s > half then mmax
                 else rangeMax s + (mmax - rangeMax s) * a))"
proof (intro conjI impI)
  note fc = frame_commits_range[OF w h n, of s]
  note pos = rangeSnapThreshold_pos[of "currentRange (rangeMin s) (rangeMax s)" "innerHeightOf inp"]
  {
    assume "\<not> isMultiNow inp \<and> rangeInited s"
    then have nr: "nextRangeOf s inp =
        (snapWithin (snapOrLerpMin (rangeMin s) tmin (currentRange (rangeMin s) (rangeMax s)) a)
           tmin px,
         snapWithin (snapOrLerpMax (rangeMax s) tmax (currentRange (rangeMin s) (rangeMax s)) a)
           tmax px)"
      by (simp add: nextRangeOf_def advanceRange_def Let_def alphaOf_law a_def px_def
            tmin_def tmax_def)
    show "rangeMin (snd (frameCallback s inp))
              = (if tmin < rangeMin s \<and> rangeMin s - tmin > half then tmin
                 else snapWithin (rangeMin s + (tmin - rangeMin s) * a) tmin px)"
      using fc pos unfolding nr
      by (simp add: snapOrLerpMin_def snapWithin_def half_def px_def Let_def)
    show "rangeMax (snd (frameCallback s inp))
              = (if tmax > rangeMax s \<and> tmax - rangeMax s > half then tmax
                 else snapWithin (rangeMax s + (tmax - rangeMax s) * a) tmax px)"
      using fc pos unfolding nr
      by (simp add: snapOrLerpMax_def snapWithin_def half_def px_def Let_def)
  }
  {
    assume "isMultiNow inp \<and> multiSeriesRangeInited s"
    then have nr: "nextRangeOf s inp =
        (snapOrLerpMin (rangeMin s) mmin (currentRange (rangeMin s) (rangeMax s)) a,
         snapOrLerpMax (rangeMax s) mmax (currentRange (rangeMin s) (rangeMax s)) a)"
      by (simp add: nextRangeOf_def advanceMultiRange_def Let_def alphaOf_law a_def
            mmin_def mmax_def currentRange_def split_beta)
    show "rangeMin (snd (frameCallback s inp))
              = (if mmin < rangeMin s \<and> rangeMin s - mmin > half then mmin
                 else rangeMin s + (mmin - rangeMin s) * a)"
      using fc unfolding nr by (simp add: snapOrLerpMin_def half_def Let_def)
    show "rangeMax (snd (frameCallback s inp))
              = (if mmax > rangeMax s \<and> mmax - rangeMax s > half then mmax
                 else rangeMax s + (mmax - rangeMax s) * a)"
      using fc unfolding nr by (simp add: snapOrLerpMax_def half_def Let_def)
  }
qed

text \<open>
  Without the half-pixel snap the claim fails: current range \<open>[0, 1]\<close>, target minimum
  0.001 (a contraction), blend factor 0.5 and a plot 100 pixels high give the next minimum
  0.001, not the interpolated 0.0005.
\<close>

theorem advanceRange_lerp_counterexample:
  "\<not> (rmin \<lparr>rmin = 1/1000, rmax = 1\<rparr> < (0::real)
       \<and> 0 - rmin \<lparr>rmin = 1/1000, rmax = 1\<rparr> > currentRange 0 1 * (1/2))
   \<and> fst (advanceRange True 0 1 \<lparr>rmin = 1/1000, rmax = 1\<rparr> (1/2) 100)
        \<noteq> 0 + (rmin \<lparr>rmin = 1/1000, rmax = 1\<rparr> - 0) * (1/2)"
  by (simp add: advanceRange_def Let_def snapOrLerpMin_def snapOrLerpMax_def snapWithin_def
        currentRange_def rangeSnapThreshold_def VALUE_SNAP_THRESHOLD_def)

text \<open>The single-series frame after initialisation, evaluated.\<close>

lemma running_flags:
  "0 < width sampleFrame" "0 < height sampleFrame" "0 < ptsCountOf (pts sampleFrame)"
  "\<not> isMultiNow sampleFrame" "rangeInited runningState"
  "rangeMin runningState = 199/2" "rangeMax runningState = 201/2"
  "ratio sampleFrame = 1" "pauseProgress sampleFrame = 0" "innerHeightOf sampleFrame = 160"
  by (simp_all add: sampleFrame_def runningState_def initialState_def ptsCountOf_def
        innerHeightOf_def)

lemma running_speed: "speedOf runningState sampleFrame = 8/100"
  by (simp add: speedOf_def runningState_def initialState_def
       targetValueOf_def sampleFrame_def liveValueOf_def ptsCountOf_def
       adaptiveSpeed_def gapRatio_def currentRange_def clamp_def)

lemma running_rangeOut:
  "rangeOutOf runningState sampleFrame = \<lparr> rmin = 2497/25, rmax = 2528/25 \<rparr>"
  by (simp add: rangeOutOf_def runningState_def initialState_def sampleFrame_def ptsCountOf_def
        computeRangeFromVisible_def dataExtent_def scanVisible_def scanStep_def upto_0_1
        ptV_at_def ptV_def minRangeOf_def Let_def)

lemma multi_frame_flags:
  "0 < width multiFrame" "0 < height multiFrame" "0 < ptsCountOf (pts multiFrame)"
  "ratio multiFrame = 1" "pauseProgress multiFrame = 0"
  by (simp_all add: multiFrame_def sampleFrame_def ptsCountOf_def)

theorem range_advance_snap_or_lerp_witness:
  "(0 < width sampleFrame \<and> 0 < height sampleFrame \<and> 0 < ptsCountOf (pts sampleFrame)
      \<and> \<not> isMultiNow sampleFrame \<and> rangeInited runningState)
   \<and> rangeMin (snd (frameCallback runningState sampleFrame)) = 124413/1250
   \<and> rangeMax (snd (frameCallback runningState sampleFrame)) = 2528/25
   \<and> (0 < width multiFrame \<and> 0 < height multiFrame \<and> 0 < ptsCountOf (pts multiFrame)
      \<and> isMultiNow multiFrame \<and> multiSeriesRangeInited multiState)
   \<and> rangeMin (snd (frameCallback multiState multiFrame)) = 124413/1250
   \<and> rangeMax (snd (frameCallback multiState multiFrame)) = 2528/25"
proof -
  have single:
    "rangeMin (snd (frameCallback runningState sampleFrame)) = 124413/1250
     \<and> rangeMax (snd (frameCallback runningState sampleFrame)) = 2528/25"
    using range_advance_snap_or_lerp[where s=runningState and inp=sampleFrame]
    by (simp add: running_flags running_speed running_rangeOut frameAlpha_def currentRange_def
          rangeSnapThreshold_def snapWithin_def)
  have multi:
    "rangeMin (snd (frameCallback multiState multiFrame)) = 124413/1250
     \<and> rangeMax (snd (frameCallback multiState multiFrame)) = 2528/25"
    using range_advance_snap_or_lerp[where s=multiState and inp=multiFrame]
      multi_flags(1,2)[of "8/100", unfolded multi_relive]
      multi_series[of "8/100", unfolded multi_relive]
    by (simp add: multi_frame_flags multi_flags multi_speed multi_slots multi_target
          frameAlpha_def currentRange_def)
  show ?thesis
    using single multi multi_flags(1)[of "8/100", unfolded multi_relive]
    by (simp add: running_flags multi_frame_flags multi_flags)
qed

section \<open>Properties of the candle width morph\<close>

lemma alphaLerp_number:
  assumes "speed < 1"
  shows "\<exists>x. alphaLerp cur to speed r = Finite x \<and> lerpNumber cur to speed r = x"
proof -
  have "jsPow (1 - speed) r = Finite (if r = 0 then 1 else (1 - speed) powr r)"
    using assms by (simp add: jsPow_def)
  then show ?thesis by (simp add: alphaLerp_def lerpNumber_def)
qed

lemma candleRangeSpeed_below_1: "candleRangeSpeed s cr < 1"
proof -
  define g where "g = (if candleRangeMax s - candleRangeMin s > 0
      then max \<bar>rmin cr - candleRangeMin s\<bar> \<bar>rmax cr - candleRangeMax s\<bar>
             / (candleRangeMax s - candleRangeMin s)
      else 1)"
  have "0 \<le> g" by (simp add: g_def)
  then have "0 \<le> min g 1" by simp
  then have "(1 - min g 1) * (2/10) \<le> 2/10" by simp
  moreover have "candleRangeSpeed s cr = 15/100 + (1 - min g 1) * (2/10)"
    by (simp add: candleRangeSpeed_def Let_def g_def CANDLE_RANGE_LERP_SPEED_def
          CANDLE_RANGE_ADAPTIVE_BOOST_def)
  ultimately show ?thesis by linarith
qed

lemma cos_half_turn: "cos ((1/2) * pi) = (0::real)"
  by simp

lemma logLerp_1_4_half: "logLerp 1 4 (1/2) = 2"
proof -
  have "logLerp 1 4 (1/2) = exp ((1/2) * ln 4)" by (simp add: logLerp_def)
  also have "\<dots> = 4 powr (1/2)" by (simp add: powr_def)
  also have "\<dots> = sqrt 4" by (simp add: powr_half_sqrt)
  also have "\<dots> = 2" using real_sqrt_abs[of 2] by simp
  finally show ?thesis .
qed

text \<open>A morph that is running and not yet complete.\<close>

lemma stepWidthMorph_running:
  assumes "0 < candleWidthMorphStart s1"
    and "(nowRawMs inp - candleWidthMorphStart s1) / CANDLE_WIDTH_TRANS_MS < 1"
  defines "t \<equiv> (nowRawMs inp - candleWidthMorphStart s1) / CANDLE_WIDTH_TRANS_MS"
  shows "stepWidthMorph s1 inp =
     ((1 - cos (t * pi)) / 2,
      logLerp (candleWidthMorphFrom s1) (candleWidthMorphTo s1) ((1 - cos (t * pi)) / 2),
      s1\<lparr> candleWidthMorphT := (1 - cos (t * pi)) / 2 \<rparr>)"
  using assms(1,2) by (simp add: stepWidthMorph_def Let_def t_def min_def)

text \<open>
  Claim C9 (as amended). While a width morph is running, its progress is the cosine ease
  \<open>(1 - cos (t * pi)) / 2\<close> of \<open>t = elapsed / 300 ms\<close>, the displayed candle width is
  interpolated in log space between the old and the new width, and the Y-range the new-
  width and old-width candle paths are drawn against is interpolated linearly,
  \<open>old + (new - old) * progress\<close>, between the old-width and the new-width range endpoints.
\<close>

theorem width_morph_range_linear:
  fixes s :: EngineState and inp :: FrameInput
  defines "s1 \<equiv> startWidthMorph s inp"
  defines "t \<equiv> (nowRawMs inp - candleWidthMorphStart s1) / CANDLE_WIDTH_TRANS_MS"
  defines "morphT \<equiv> (1 - cos (t * pi)) / 2"
  defines "w \<equiv> logLerp (candleWidthMorphFrom s1) (candleWidthMorphTo s1) morphT"
  defines "newMin \<equiv> (case targetCandleRange inp of Some tr \<Rightarrow> rmin tr
                       | None \<Rightarrow> candleWidthNewRangeMin s1)"
  defines "newMax \<equiv> (case targetCandleRange inp of Some tr \<Rightarrow> rmax tr
                       | None \<Rightarrow> candleWidthNewRangeMax s1)"
  defines "cRangeMin \<equiv> candleWidthOldRangeMin s1 + (newMin - candleWidthOldRangeMin s1) * morphT"
  defines "cRangeMax \<equiv> candleWidthOldRangeMax s1 + (newMax - candleWidthOldRangeMax s1) * morphT"
  assumes candle: "isCandleNow inp"
    and running: "0 < candleWidthMorphStart s1" and unfinished: "t < 1"
  shows "0 \<le> morphT \<and> morphT \<le> 1
       \<and> CANDLE_WIDTH_TRANS_MS = 300
       \<and> stepWidthMorph s1 inp = (morphT, w, s1\<lparr> candleWidthMorphT := morphT \<rparr>)
       \<and> (\<exists>rest s'. candlePipeline s inp rangeMinNow rangeSpanNow
             = (CandlePaths cRangeMin (max (1/1000000) (cRangeMax - cRangeMin))
                # OldCandlePaths cRangeMin (max (1/1000000) (cRangeMax - cRangeMin)) # rest, s')
             \<and> candleWidthOldRangeMin s' = candleWidthOldRangeMin s1
             \<and> candleWidthNewRangeMin s' = newMin
             \<and> candleWidthOldRangeMax s' = candleWidthOldRangeMax s1
             \<and> candleWidthNewRangeMax s' = newMax)"
proof -
  have c: "- 1 \<le> cos (t * pi)" "cos (t * pi) \<le> 1" by simp_all
  then have m: "0 \<le> morphT \<and> morphT \<le> 1" unfolding morphT_def by simp
  have step: "stepWidthMorph s1 inp = (morphT, w, s1\<lparr> candleWidthMorphT := morphT \<rparr>)"
    using stepWidthMorph_running[OF running unfinished[unfolded t_def]]
    by (simp add: w_def morphT_def t_def)
  define s3 where "s3 = advanceCandleRange (s1\<lparr> candleWidthMorphT := morphT \<rparr>) (ratio inp)
      (visibleCandleRange inp w)"
  have s3: "candleWidthOldRangeMin s3 = candleWidthOldRangeMin s1
      \<and> candleWidthOldRangeMax s3 = candleWidthOldRangeMax s1
      \<and> candleWidthNewRangeMin s3 = candleWidthNewRangeMin s1
      \<and> candleWidthNewRangeMax s3 = candleWidthNewRangeMax s1"
    unfolding s3_def by (cases "visibleCandleRange inp w") (simp_all add: advanceCandleRange_def Let_def)
  define s4 where "s4 = (case targetCandleRange inp of None \<Rightarrow> s3
      | Some tr \<Rightarrow> s3\<lparr> candleWidthNewRangeMin := rmin tr, candleWidthNewRangeMax := rmax tr \<rparr>)"
  have s4: "candleWidthOldRangeMin s4 = candleWidthOldRangeMin s1
      \<and> candleWidthOldRangeMax s4 = candleWidthOldRangeMax s1
      \<and> candleWidthNewRangeMin s4 = newMin \<and> candleWidthNewRangeMax s4 = newMax"
    unfolding s4_def newMin_def newMax_def using s3
    by (cases "targetCandleRange inp") simp_all
  have disp: "displayedCandleRange s3 morphT (targetCandleRange inp) = (cRangeMin, cRangeMax, s4)"
    using m s4 by (simp add: displayedCandleRange_def Let_def cRangeMin_def cRangeMax_def s4_def)
  have "\<exists>rest. candlePipeline s inp rangeMinNow rangeSpanNow
             = (CandlePaths cRangeMin (max (1/1000000) (cRangeMax - cRangeMin))
                # OldCandlePaths cRangeMin (max (1/1000000) (cRangeMax - cRangeMin)) # rest, s4)"
    using candle m
    by (simp add: candlePipeline_def Let_def s1_def[symmetric] step s3_def[symmetric] disp)
  then show ?thesis
    using m step s4 by (auto simp: CANDLE_WIDTH_TRANS_MS_def)
qed

lemma midMorph_step:
  "stepWidthMorph (startWidthMorph midMorphState midMorphFrame) midMorphFrame
     = (1/2, logLerp 60 300 (1/2), midMorphState\<lparr> candleWidthMorphT := 1/2 \<rparr>)"
proof -
  have s: "startWidthMorph midMorphState midMorphFrame = midMorphState"
    by (simp add: startWidthMorph_def midMorphState_def midMorphFrame_def)
  have t: "(nowRawMs midMorphFrame - candleWidthMorphStart midMorphState) / CANDLE_WIDTH_TRANS_MS
            = 1/2"
    by (simp add: midMorphState_def midMorphFrame_def CANDLE_WIDTH_TRANS_MS_def)
  have "stepWidthMorph midMorphState midMorphFrame
     = ((1 - cos ((1/2) * pi)) / 2,
        logLerp (candleWidthMorphFrom midMorphState) (candleWidthMorphTo midMorphState)
           ((1 - cos ((1/2) * pi)) / 2),
        midMorphState\<lparr> candleWidthMorphT := (1 - cos ((1/2) * pi)) / 2 \<rparr>)"
    using stepWidthMorph_running[of midMorphState midMorphFrame] unfolding t
    by (simp add: midMorphState_def)
  then show ?thesis unfolding s cos_half_turn
    by (simp add: midMorphState_def initialState_def)
qed

text \<open>
  The range is not interpolated in log space: half way through a morph from the range
  minimum 1 to the range minimum 4 the candles are drawn against the minimum 2.5, where
  the interpolation in log space gives 2.
\<close>

theorem width_morph_log_range_counterexample:
  "candlePipeline midMorphState midMorphFrame 0 1
     = ([CandlePaths (5/2) (27/2), OldCandlePaths (5/2) (27/2)],
        midMorphState\<lparr> candleWidthMorphT := 1/2 \<rparr>)
   \<and> candleWidthOldRangeMin midMorphState = 1
   \<and> candleWidthNewRangeMin midMorphState = 4
   \<and> exp (ln 1 + (ln 4 - ln 1) * (1/2)) = (2::real)
   \<and> (5/2::real) \<noteq> exp (ln 1 + (ln 4 - ln 1) * (1/2))"
proof -
  have a: "candlePipeline midMorphState midMorphFrame 0 1
     = ([CandlePaths (5/2) (27/2), OldCandlePaths (5/2) (27/2)],
        midMorphState\<lparr> candleWidthMorphT := 1/2 \<rparr>)"
    unfolding candlePipeline_def Let_def midMorph_step
    by (simp add: midMorphFrame_def sampleFrame_def advanceCandleRange_def
          displayedCandleRange_def midMorphState_def initialState_def)
  have b: "exp (ln 1 + (ln 4 - ln 1) * (1/2)) = (2::real)"
    using logLerp_1_4_half by (simp add: logLerp_def)
  show ?thesis using a b by (simp add: midMorphState_def initialState_def)
qed

lemma midMorph_fields:
  "candleWidthOldRangeMin midMorphState = 1" "candleWidthOldRangeMax midMorphState = 16"
  "candleWidthNewRangeMin midMorphState = 4" "candleWidthNewRangeMax midMorphState = 16"
  "candleWidthMorphStart midMorphState = 1000"
  "targetCandleRange midMorphFrame = None" "isCandleNow midMorphFrame"
  "nowRawMs midMorphFrame = 1150"
  by (simp_all add: midMorphState_def initialState_def midMorphFrame_def sampleFrame_def)

theorem width_morph_range_linear_witness:
  "\<exists>rest s'. candlePipeline midMorphState midMorphFrame 0 1
      = (CandlePaths (1 + (4 - 1) * (1/2)) (27/2) # OldCandlePaths (1 + (4 - 1) * (1/2)) (27/2) # rest, s')"
proof -
  have s: "startWidthMorph midMorphState midMorphFrame = midMorphState"
    by (simp add: startWidthMorph_def midMorphState_def midMorphFrame_def)
  have t: "(nowRawMs midMorphFrame - candleWidthMorphStart midMorphState) / CANDLE_WIDTH_TRANS_MS
             = 1/2"
    by (simp add: midMorph_fields CANDLE_WIDTH_TRANS_MS_def)
  have r: "0 < candleWidthMorphStart (startWidthMorph midMorphState midMorphFrame)"
    unfolding s by (simp add: midMorph_fields)
  have u: "(nowRawMs midMorphFrame - candleWidthMorphStart (startWidthMorph midMorphState midMorphFrame))
             / CANDLE_WIDTH_TRANS_MS < 1"
    unfolding s t by simp
  note T = width_morph_range_linear[OF midMorph_fields(7) r u, of 0 1, unfolded s t cos_half_turn]
  then have "\<exists>rest s'. candlePipeline midMorphState midMorphFrame 0 1
      = (CandlePaths (1 + (4 - 1) * ((1 - 0) / 2))
            (max (1/1000000) (16 + (16 - 16) * ((1 - 0) / 2) - (1 + (4 - 1) * ((1 - 0) / 2))))
         # OldCandlePaths (1 + (4 - 1) * ((1 - 0) / 2))
            (max (1/1000000) (16 + (16 - 16) * ((1 - 0) / 2) - (1 + (4 - 1) * ((1 - 0) / 2))))
         # rest, s')"
    unfolding midMorph_fields option.case by blast
  then show ?thesis by simp
qed

end
